theory Spec2Isabelle
  imports Complex_Main "HOL-Library.AList" "HOL-Library.Multiset"
begin

section \<open>Python values\<close>

text \<open>
  The aggregator (\<^verbatim>\<open>stats_calculator.py\<close>) and the innings parser
  (\<^verbatim>\<open>mlb_api_client.py\<close>) work on JSON-like data: dictionaries whose values are
  integers, floats, strings, booleans or \<^verbatim>\<open>None\<close>. Exceptions are values of
  \<open>py_error\<close>; a computation that may raise returns \<open>py_error + 'a\<close>, with
  \<open>Inl\<close> for the exception.
\<close>

datatype py_error = ValueError | TypeError | OverflowError | ZeroDivisionError

definition bind :: "py_error + 'a \<Rightarrow> ('a \<Rightarrow> py_error + 'b) \<Rightarrow> py_error + 'b" where
  "bind r f = (case r of Inl e \<Rightarrow> Inl e | Inr x \<Rightarrow> f x)"

subsection \<open>Floats: IEEE 754 binary64, round to nearest, ties to even\<close>

text \<open>
  A finite float \<open>Fin m e\<close> is the number \<open>m * 2 ^ e\<close>. Every operation returns its
  result in normal form (odd mantissa, or \<open>Fin 0 0\<close> for zero), rounded to 53 bits with
  the exponent range of binary64 (subnormals down to \<open>2 ^ -1074\<close>, overflow to infinity
  from \<open>2 ^ 1024\<close>). The two zeros are identified: Python compares them equal and the
  aggregator never divides by them.
\<close>

datatype pyfloat = Fin int int | PosInf | NegInf | NaN

abbreviation fzero :: pyfloat where
  "fzero \<equiv> Fin 0 0"

function bit_length :: "int \<Rightarrow> nat" where
  "bit_length n = (if n \<le> 0 then 0 else Suc (bit_length (n div 2)))"
  by pat_completeness auto
termination
  by (relation "measure nat") auto

declare bit_length.simps [simp del]

function fnorm :: "int \<Rightarrow> int \<Rightarrow> pyfloat" where
  "fnorm m e = (if m = 0 then fzero else if even m then fnorm (m div 2) (e + 1) else Fin m e)"
  by pat_completeness auto
termination
  by (relation "measure (\<lambda>(m, e). nat \<bar>m\<bar>)") auto

declare fnorm.simps [simp del]

text \<open>\<open>floor_log2 n d\<close> is \<open>\<lfloor>log\<^sub>2 (n / d)\<rfloor>\<close> for positive \<open>n\<close> and \<open>d\<close>.\<close>

definition floor_log2_adj :: "int \<Rightarrow> int \<Rightarrow> int \<Rightarrow> int" where
  "floor_log2_adj n d k =
     (if (if 0 \<le> k then d * 2 ^ nat k \<le> n else d \<le> n * 2 ^ nat (- k)) then k else k - 1)"

definition floor_log2 :: "int \<Rightarrow> int \<Rightarrow> int" where
  "floor_log2 n d = floor_log2_adj n d (int (bit_length n) - int (bit_length d))"

text \<open>\<open>round_half_even n d\<close> is the integer nearest to \<open>n / d\<close> (\<open>d > 0\<close>), ties to even.\<close>

definition round_tie :: "int \<Rightarrow> int \<Rightarrow> int \<Rightarrow> int" where
  "round_tie q r d =
     (if 2 * r < d then q else if d < 2 * r then q + 1 else if even q then q else q + 1)"

definition round_half_even :: "int \<Rightarrow> int \<Rightarrow> int" where
  "round_half_even n d = round_tie (n div d) (n mod d) d"

definition rnd64_pack :: "bool \<Rightarrow> int \<Rightarrow> int \<Rightarrow> pyfloat" where
  "rnd64_pack pos m e =
     (if 971 < e \<or> (e = 971 \<and> 2 ^ 53 \<le> m) then (if pos then PosInf else NegInf)
      else fnorm (if pos then m else - m) e)"

definition rnd64_at :: "bool \<Rightarrow> int \<Rightarrow> int \<Rightarrow> int \<Rightarrow> pyfloat" where
  "rnd64_at pos a d e =
     rnd64_pack pos (if 0 \<le> e then round_half_even a (d * 2 ^ nat e)
                     else round_half_even (a * 2 ^ nat (- e)) d) e"

text \<open>\<open>rnd64 n d\<close> is the float nearest to the rational \<open>n / d\<close> (\<open>d > 0\<close>).\<close>

definition rnd64 :: "int \<Rightarrow> int \<Rightarrow> pyfloat" where
  "rnd64 n d =
     (if n = 0 then fzero
      else rnd64_at (0 < n) \<bar>n\<bar> d (max (floor_log2 \<bar>n\<bar> d - 52) (- 1074)))"

text \<open>\<open>rnd64_scaled n d b k\<close> is the float nearest to \<open>(n / d) * b ^ k\<close>, for any integer \<open>k\<close>.\<close>

definition rnd64_scaled :: "int \<Rightarrow> int \<Rightarrow> int \<Rightarrow> int \<Rightarrow> pyfloat" where
  "rnd64_scaled n d b k = (if 0 \<le> k then rnd64 (n * b ^ nat k) d else rnd64 n (d * b ^ nat (- k)))"

text \<open>Float addition, \<^verbatim>\<open>x + y\<close>.\<close>

fun fadd :: "pyfloat \<Rightarrow> pyfloat \<Rightarrow> pyfloat" where
  "fadd (Fin m1 e1) (Fin m2 e2) =
     rnd64_scaled (m1 * 2 ^ nat (e1 - min e1 e2) + m2 * 2 ^ nat (e2 - min e1 e2)) 1 2 (min e1 e2)"
| "fadd NaN _ = NaN"
| "fadd _ NaN = NaN"
| "fadd PosInf NegInf = NaN"
| "fadd NegInf PosInf = NaN"
| "fadd PosInf _ = PosInf"
| "fadd NegInf _ = NegInf"
| "fadd _ PosInf = PosInf"
| "fadd _ NegInf = NegInf"

text \<open>Float division, \<^verbatim>\<open>x / y\<close>: a zero divisor raises, overflow gives an infinity.\<close>

fun fdiv :: "pyfloat \<Rightarrow> pyfloat \<Rightarrow> py_error + pyfloat" where
  "fdiv NaN (Fin m2 e2) = (if m2 = 0 then Inl ZeroDivisionError else Inr NaN)"
| "fdiv PosInf (Fin m2 e2) =
     (if m2 = 0 then Inl ZeroDivisionError else Inr (if 0 < m2 then PosInf else NegInf))"
| "fdiv NegInf (Fin m2 e2) =
     (if m2 = 0 then Inl ZeroDivisionError else Inr (if 0 < m2 then NegInf else PosInf))"
| "fdiv (Fin m1 e1) (Fin m2 e2) =
     (if m2 = 0 then Inl ZeroDivisionError
      else Inr (rnd64_scaled (if 0 < m2 then m1 else - m1) \<bar>m2\<bar> 2 (e1 - e2)))"
| "fdiv _ NaN = Inr NaN"
| "fdiv (Fin m1 e1) _ = Inr fzero"
| "fdiv _ _ = Inr NaN"

text \<open>The comparison \<^verbatim>\<open>x > 0\<close>; it is false for NaN.\<close>

fun fpositive :: "pyfloat \<Rightarrow> bool" where
  "fpositive (Fin m e) = (0 < m)"
| "fpositive PosInf = True"
| "fpositive _ = False"

text \<open>
  Conversions and divisions that start from a Python integer raise \<^verbatim>\<open>OverflowError\<close>
  where float arithmetic would give an infinity.
\<close>

definition finite_or_overflow :: "pyfloat \<Rightarrow> py_error + pyfloat" where
  "finite_or_overflow x = (case x of Fin m e \<Rightarrow> Inr (Fin m e) | _ \<Rightarrow> Inl OverflowError)"

definition float_of_int :: "int \<Rightarrow> py_error + pyfloat" where
  "float_of_int n = finite_or_overflow (rnd64 n 1)"

text \<open>True division of two integers, \<^verbatim>\<open>a / b\<close>: the correctly rounded quotient.\<close>

definition int_truediv :: "int \<Rightarrow> int \<Rightarrow> py_error + pyfloat" where
  "int_truediv a b =
     (if b = 0 then Inl ZeroDivisionError
      else finite_or_overflow (rnd64 (if 0 < b then a else - a) \<bar>b\<bar>))"

text \<open>
  \<^verbatim>\<open>round(x, ndigits)\<close> on a float: the exact value of \<open>x\<close> is rounded half-even to
  \<open>ndigits\<close> decimals, and the float nearest to that decimal is returned. Infinities and
  NaN round to themselves.
\<close>

definition round_decimal :: "int \<Rightarrow> int \<Rightarrow> nat \<Rightarrow> int" where
  "round_decimal m e ndigits =
     (if 0 \<le> e then m * 10 ^ ndigits * 2 ^ nat e
      else round_half_even (m * 10 ^ ndigits) (2 ^ nat (- e)))"

definition py_round :: "pyfloat \<Rightarrow> nat \<Rightarrow> py_error + pyfloat" where
  "py_round x ndigits =
     (case x of
        Fin m e \<Rightarrow> finite_or_overflow (rnd64 (round_decimal m e ndigits) (10 ^ ndigits))
      | _ \<Rightarrow> Inr x)"

subsection \<open>Values, and the conversions \<^verbatim>\<open>int(v)\<close> and \<^verbatim>\<open>float(v)\<close>\<close>

datatype pyval = PNone | PBool bool | PInt int | PFloat pyfloat | PStr string

text \<open>
  A string is a list of characters with code points below 256 (ASCII and Latin-1). The
  parsers below are those of CPython 3.11 on such text. \<^verbatim>\<open>int\<close> and \<^verbatim>\<open>float\<close> skip white
  space at both ends: the six ASCII characters, and the two of Latin-1 (next line, U+0085,
  and no-break space, U+00A0); they read ASCII digits only.
\<close>

definition py_isspace :: "char \<Rightarrow> bool" where
  "py_isspace c = ((of_char c :: nat) \<in> {9, 10, 11, 12, 13, 32, 133, 160})"

definition strip :: "string \<Rightarrow> string" where
  "strip s = rev (dropWhile py_isspace (rev (dropWhile py_isspace s)))"

definition is_digit :: "char \<Rightarrow> bool" where
  "is_digit c = (48 \<le> (of_char c :: nat) \<and> (of_char c :: nat) \<le> 57)"

definition digit_val :: "char \<Rightarrow> int" where
  "digit_val c = int (of_char c) - 48"

text \<open>\<^verbatim>\<open>digitpart ::= digit (["_"] digit)*\<close>, read in base 10.\<close>

fun digitpart_acc :: "int \<Rightarrow> string \<Rightarrow> int option" where
  "digitpart_acc acc [] = Some acc"
| "digitpart_acc acc [c] = (if is_digit c then Some (acc * 10 + digit_val c) else None)"
| "digitpart_acc acc (c # d # ds) =
     (if is_digit c then digitpart_acc (acc * 10 + digit_val c) (d # ds)
      else if c = CHR ''_'' \<and> is_digit d then digitpart_acc (acc * 10 + digit_val d) ds
      else None)"

definition digitpart :: "string \<Rightarrow> int option" where
  "digitpart s =
     (case s of [] \<Rightarrow> None | c # cs \<Rightarrow> if is_digit c then digitpart_acc (digit_val c) cs else None)"

definition signed_digits :: "string \<Rightarrow> int option" where
  "signed_digits t =
     (case t of
        [] \<Rightarrow> None
      | c # r \<Rightarrow>
          if c = CHR ''-'' then map_option uminus (digitpart r)
          else if c = CHR ''+'' then digitpart r
          else digitpart t)"

text \<open>
  \<^verbatim>\<open>int(s)\<close> for a string: \<open>None\<close> stands for \<^verbatim>\<open>ValueError\<close>, which is also what a
  literal of more than 4300 digits raises (the interpreter's default limit,
  \<^verbatim>\<open>sys.get_int_max_str_digits()\<close>; signs, underscores and white space do not count).
\<close>

definition digit_count :: "string \<Rightarrow> nat" where
  "digit_count s = length (filter is_digit s)"

definition py_int_of_str :: "string \<Rightarrow> int option" where
  "py_int_of_str s = (if 4300 < digit_count (strip s) then None else signed_digits (strip s))"

text \<open>\<^verbatim>\<open>s.split(sep)\<close> for a one-character separator.\<close>

fun split_on :: "char \<Rightarrow> string \<Rightarrow> string list" where
  "split_on sep [] = [[]]"
| "split_on sep (c # cs) =
     (if c = sep then [] # split_on sep cs
      else (case split_on sep cs of [] \<Rightarrow> [[c]] | p # ps \<Rightarrow> (c # p) # ps))"

definition lower :: "char \<Rightarrow> char" where
  "lower c = (if 65 \<le> (of_char c :: nat) \<and> (of_char c :: nat) \<le> 90
              then char_of ((of_char c :: nat) + 32) else c)"

text \<open>
  The mantissa \<^verbatim>\<open>[digitpart] "." digitpart | digitpart ["."]\<close> as an integer and the number
  of decimals it has.
\<close>

definition mantissa :: "string \<Rightarrow> (int \<times> nat) option" where
  "mantissa m =
     (case split_on CHR ''.'' m of
        [i] \<Rightarrow> map_option (\<lambda>v. (v, 0)) (digitpart i)
      | [i, f] \<Rightarrow>
          if i = [] \<and> f = [] then None
          else (case (if i = [] then Some 0 else digitpart i, if f = [] then Some 0 else digitpart f) of
                  (Some iv, Some fv) \<Rightarrow> Some (iv * 10 ^ digit_count f + fv, digit_count f)
                | _ \<Rightarrow> None)
      | _ \<Rightarrow> None)"

definition is_exp_mark :: "char \<Rightarrow> bool" where
  "is_exp_mark c = (c = CHR ''e'' \<or> c = CHR ''E'')"

definition decimal_float :: "bool \<Rightarrow> string \<Rightarrow> pyfloat option" where
  "decimal_float pos b =
     (case (mantissa (takeWhile (\<lambda>c. \<not> is_exp_mark c) b),
            case dropWhile (\<lambda>c. \<not> is_exp_mark c) b of [] \<Rightarrow> Some 0 | _ # x \<Rightarrow> signed_digits x) of
        (Some (v, sc), Some ex) \<Rightarrow> Some (rnd64_scaled (if pos then v else - v) 1 10 (ex - int sc))
      | _ \<Rightarrow> None)"

definition float_body :: "bool \<Rightarrow> string \<Rightarrow> pyfloat option" where
  "float_body pos b =
     (if map lower b = ''inf'' \<or> map lower b = ''infinity'' then Some (if pos then PosInf else NegInf)
      else if map lower b = ''nan'' then Some NaN
      else decimal_float pos b)"

text \<open>\<^verbatim>\<open>float(s)\<close> for a string: \<open>None\<close> stands for \<^verbatim>\<open>ValueError\<close>.\<close>

definition py_float_of_str :: "string \<Rightarrow> pyfloat option" where
  "py_float_of_str s =
     (case strip s of
        [] \<Rightarrow> None
      | c # r \<Rightarrow>
          if c = CHR ''-'' then float_body False r
          else if c = CHR ''+'' then float_body True r
          else float_body True (c # r))"

text \<open>Truncation of a finite float towards zero, as \<^verbatim>\<open>int(x)\<close> does.\<close>

definition ftrunc :: "int \<Rightarrow> int \<Rightarrow> int" where
  "ftrunc m e =
     (if 0 \<le> e then m * 2 ^ nat e
      else if 0 \<le> m then m div 2 ^ nat (- e) else - ((- m) div 2 ^ nat (- e)))"

fun py_int :: "pyval \<Rightarrow> py_error + int" where
  "py_int (PInt n) = Inr n"
| "py_int (PBool b) = Inr (if b then 1 else 0)"
| "py_int (PFloat (Fin m e)) = Inr (ftrunc m e)"
| "py_int (PFloat NaN) = Inl ValueError"
| "py_int (PFloat _) = Inl OverflowError"
| "py_int (PStr s) = (case py_int_of_str s of None \<Rightarrow> Inl ValueError | Some n \<Rightarrow> Inr n)"
| "py_int PNone = Inl TypeError"

fun py_float :: "pyval \<Rightarrow> py_error + pyfloat" where
  "py_float (PFloat x) = Inr x"
| "py_float (PInt n) = float_of_int n"
| "py_float (PBool b) = Inr (if b then Fin 1 0 else fzero)"
| "py_float (PStr s) = (case py_float_of_str s of None \<Rightarrow> Inl ValueError | Some x \<Rightarrow> Inr x)"
| "py_float PNone = Inl TypeError"

section \<open>The innings parser (\<^verbatim>\<open>mlb_api_client.py\<close>)\<close>

text \<open>
  \<^verbatim>\<open>parse_innings(player_stats.get('ip', 0))\<close>: the box score gives the innings as a
  string such as \<^verbatim>\<open>"6.1"\<close>. The argument is \<open>None\<close> when the field is missing (the
  default \<^verbatim>\<open>0\<close>, which is falsy, like \<^verbatim>\<open>None\<close>), and \<open>Some s\<close> for a string. The
  function returns a float, or an integer when the fraction is not made of digits.
  \<^verbatim>\<open>ValueError\<close> and \<^verbatim>\<open>TypeError\<close> are caught and give \<^verbatim>\<open>0.0\<close>; any other exception
  leaves the function.
\<close>

text \<open>
  \<^verbatim>\<open>str.isdigit\<close>: on Latin-1 text, the ASCII digits and the superscript digits U+00B2,
  U+00B3 and U+00B9 (which \<^verbatim>\<open>int\<close> rejects).
\<close>

definition is_digit_char :: "char \<Rightarrow> bool" where
  "is_digit_char c = (is_digit c \<or> (of_char c :: nat) \<in> {178, 179, 185})"

definition isdigit :: "string \<Rightarrow> bool" where
  "isdigit s = (s \<noteq> [] \<and> list_all is_digit_char s)"

definition int_of_str :: "string \<Rightarrow> py_error + int" where
  "int_of_str s = py_int (PStr s)"

definition add_int_float :: "int \<Rightarrow> pyfloat \<Rightarrow> py_error + pyval" where
  "add_int_float n x = bind (float_of_int n) (\<lambda>y. Inr (PFloat (fadd y x)))"

definition parse_dotted :: "string \<Rightarrow> py_error + pyval" where
  "parse_dotted innings_str =
     (case split_on CHR ''.'' innings_str of
        [whole, fraction] \<Rightarrow>
          bind (if whole \<noteq> [] then int_of_str whole else Inr 0) (\<lambda>whole_innings.
            if fraction = ''1'' then
              bind (int_truediv 1 3) (\<lambda>fraction_decimal. add_int_float whole_innings fraction_decimal)
            else if fraction = ''2'' then
              bind (int_truediv 2 3) (\<lambda>fraction_decimal. add_int_float whole_innings fraction_decimal)
            else if isdigit fraction then
              bind (int_of_str fraction) (\<lambda>f.
              bind (int_truediv f 3) (\<lambda>fraction_decimal. add_int_float whole_innings fraction_decimal))
            else Inr (PInt (whole_innings + 0)))
      | _ \<Rightarrow> Inl ValueError)"

definition except_value_type :: "py_error + pyval \<Rightarrow> py_error + pyval" where
  "except_value_type r =
     (case r of
        Inl ValueError \<Rightarrow> Inr (PFloat fzero)
      | Inl TypeError \<Rightarrow> Inr (PFloat fzero)
      | _ \<Rightarrow> r)"

definition parse_innings :: "string option \<Rightarrow> py_error + pyval" where
  "parse_innings innings_str =
     (case innings_str of
        None \<Rightarrow> Inr (PFloat fzero)
      | Some s \<Rightarrow>
          if s = [] then Inr (PFloat fzero)
          else except_value_type
                 (if CHR ''.'' \<in> set s then parse_dotted s
                  else bind (py_float (PStr s)) (\<lambda>x. Inr (PFloat x))))"

section \<open>Game records\<close>

text \<open>
  A box-score line is the dictionary \<^verbatim>\<open>player\<close> of the source: \<open>player_id\<close> and \<open>name\<close>
  are strings when present (\<open>None\<close>: the key is absent), the numeric fields are kept as
  the values the dictionary holds, under their keys. A game is the dictionary \<^verbatim>\<open>game\<close>; an
  absent key is \<open>None\<close>.
\<close>

record player_line =
  player_id :: "string option"
  name :: "string option"
  box :: "(string \<times> pyval) list"

record game =
  home_team :: "string option"
  away_team :: "string option"
  home_score :: "pyval option"
  away_score :: "pyval option"
  home_team_batting :: "player_line list option"
  away_team_batting :: "player_line list option"
  home_team_pitching :: "player_line list option"
  away_team_pitching :: "player_line list option"

text \<open>\<^verbatim>\<open>d.get(key, default)\<close>, on a typed field and on the dictionary of numeric fields.\<close>

definition get_field :: "'a option \<Rightarrow> 'a \<Rightarrow> 'a" where
  "get_field v dflt = (case v of None \<Rightarrow> dflt | Some x \<Rightarrow> x)"

definition dict_get :: "(string \<times> pyval) list \<Rightarrow> string \<Rightarrow> pyval \<Rightarrow> pyval" where
  "dict_get d k dflt = (case map_of d k of None \<Rightarrow> dflt | Some v \<Rightarrow> v)"

section \<open>The aggregator (\<^verbatim>\<open>stats_calculator.py\<close>)\<close>

text \<open>
  The accumulated statistics of one player. Both kinds of record start with
  \<^verbatim>\<open>player_name\<close>, \<^verbatim>\<open>team\<close> and \<^verbatim>\<open>games\<close>. (The pitching field \<^verbatim>\<open>strikeouts\<close> is
  \<open>pitching_strikeouts\<close> here.)
\<close>

record stat_base =
  player_name :: string
  team :: string
  games :: int

record batting_stat = stat_base +
  at_bats :: int
  hits :: int
  runs :: int
  rbis :: int
  doubles :: int
  triples :: int
  home_runs :: int
  walks :: int
  strikeouts :: int
  batting_average :: pyfloat
  on_base_percentage :: pyfloat
  slugging_percentage :: pyfloat
  ops :: pyfloat

record pitching_stat = stat_base +
  wins :: int
  losses :: int
  saves :: int
  innings_pitched :: pyfloat
  hits_allowed :: int
  runs_allowed :: int
  earned_runs :: int
  walks_allowed :: int
  pitching_strikeouts :: int
  home_runs_allowed :: int
  era :: pyfloat
  whip :: pyfloat

text \<open>The values the two \<^verbatim>\<open>defaultdict\<close>s create for a new key.\<close>

definition default_batting :: batting_stat where
  "default_batting =
     \<lparr>player_name = [], team = [], games = 0, at_bats = 0, hits = 0, runs = 0, rbis = 0,
      doubles = 0, triples = 0, home_runs = 0, walks = 0, strikeouts = 0,
      batting_average = fzero, on_base_percentage = fzero, slugging_percentage = fzero,
      ops = fzero\<rparr>"

definition default_pitching :: pitching_stat where
  "default_pitching =
     \<lparr>player_name = [], team = [], games = 0, wins = 0, losses = 0, saves = 0,
      innings_pitched = fzero, hits_allowed = 0, runs_allowed = 0, earned_runs = 0,
      walks_allowed = 0, pitching_strikeouts = 0, home_runs_allowed = 0, era = fzero,
      whip = fzero\<rparr>"

text \<open>
  The accumulation key, the local variable \<^verbatim>\<open>player_id\<close>:
  \<^verbatim>\<open>player.get('player_id', f"unknown_{player.get('name', 'unnamed')}")\<close>.
\<close>

definition player_key :: "player_line \<Rightarrow> string" where
  "player_key player =
     get_field (player_id player) (''unknown_'' @ get_field (name player) ''unnamed'')"

text \<open>\<^verbatim>\<open>int(player.get(key, 0))\<close>.\<close>

definition int_field :: "player_line \<Rightarrow> string \<Rightarrow> py_error + int" where
  "int_field player k = py_int (dict_get (box player) k (PInt 0))"

text \<open>The nine \<^verbatim>\<open>stats[...] += int(player.get(..., 0))\<close> statements of a batting line.\<close>

definition add_batting :: "player_line \<Rightarrow> batting_stat \<Rightarrow> py_error + batting_stat" where
  "add_batting player stats =
     bind (int_field player ''at_bats'') (\<lambda>ab.
     bind (int_field player ''hits'') (\<lambda>h.
     bind (int_field player ''runs'') (\<lambda>r.
     bind (int_field player ''rbis'') (\<lambda>rb.
     bind (int_field player ''doubles'') (\<lambda>d.
     bind (int_field player ''triples'') (\<lambda>t.
     bind (int_field player ''home_runs'') (\<lambda>hr.
     bind (int_field player ''walks'') (\<lambda>w.
     bind (int_field player ''strikeouts'') (\<lambda>k.
       Inr (stats\<lparr>at_bats := at_bats stats + ab, hits := hits stats + h,
                  runs := runs stats + r, rbis := rbis stats + rb,
                  doubles := doubles stats + d, triples := triples stats + t,
                  home_runs := home_runs stats + hr, walks := walks stats + w,
                  strikeouts := strikeouts stats + k\<rparr>))))))))))"

text \<open>The ten statements of a pitching line; the innings are added as floats.\<close>

definition add_pitching :: "player_line \<Rightarrow> pitching_stat \<Rightarrow> py_error + pitching_stat" where
  "add_pitching player stats =
     bind (int_field player ''wins'') (\<lambda>w.
     bind (int_field player ''losses'') (\<lambda>l.
     bind (int_field player ''saves'') (\<lambda>sv.
     bind (py_float (dict_get (box player) ''innings_pitched'' (PInt 0))) (\<lambda>ip.
     bind (int_field player ''hits_allowed'') (\<lambda>h.
     bind (int_field player ''runs_allowed'') (\<lambda>r.
     bind (int_field player ''earned_runs'') (\<lambda>er.
     bind (int_field player ''walks_allowed'') (\<lambda>bb.
     bind (int_field player ''strikeouts'') (\<lambda>k.
     bind (int_field player ''home_runs_allowed'') (\<lambda>hr.
       Inr (stats\<lparr>wins := wins stats + w, losses := losses stats + l,
                  saves := saves stats + sv,
                  innings_pitched := fadd (innings_pitched stats) ip,
                  hits_allowed := hits_allowed stats + h,
                  runs_allowed := runs_allowed stats + r,
                  earned_runs := earned_runs stats + er,
                  walks_allowed := walks_allowed stats + bb,
                  pitching_strikeouts := pitching_strikeouts stats + k,
                  home_runs_allowed := home_runs_allowed stats + hr\<rparr>)))))))))))"

text \<open>
  The body of each of the four \<^verbatim>\<open>for player in ...\<close> loops. The loops differ only in the
  team the line is credited to and in the statements that add the counting fields
  (\<open>add_stats\<close>); \<open>dflt\<close> is the record the \<^verbatim>\<open>defaultdict\<close> creates for a new key. The
  dictionary keeps its keys in insertion order.
\<close>

definition process_line ::
  "(player_line \<Rightarrow> 'a stat_base_scheme \<Rightarrow> py_error + 'a stat_base_scheme) \<Rightarrow> 'a stat_base_scheme \<Rightarrow>
   string \<Rightarrow> player_line \<Rightarrow> (string \<times> 'a stat_base_scheme) list \<Rightarrow>
   py_error + (string \<times> 'a stat_base_scheme) list" where
  "process_line add_stats dflt team_name player stats_dict =
     bind (add_stats player
             ((get_field (map_of stats_dict (player_key player)) dflt)
                \<lparr>player_name := get_field (name player) ''Unknown'', team := team_name,
                 games := games (get_field (map_of stats_dict (player_key player)) dflt) + 1\<rparr>))
       (\<lambda>stats. Inr (AList.update (player_key player) stats stats_dict))"

fun process_lines ::
  "(player_line \<Rightarrow> 'a stat_base_scheme \<Rightarrow> py_error + 'a stat_base_scheme) \<Rightarrow> 'a stat_base_scheme \<Rightarrow>
   string \<Rightarrow> player_line list \<Rightarrow> (string \<times> 'a stat_base_scheme) list \<Rightarrow>
   py_error + (string \<times> 'a stat_base_scheme) list" where
  "process_lines add_stats dflt team_name [] stats_dict = Inr stats_dict"
| "process_lines add_stats dflt team_name (player # rest) stats_dict =
     bind (process_line add_stats dflt team_name player stats_dict)
       (process_lines add_stats dflt team_name rest)"

definition process_game_batting_stats ::
  "game \<Rightarrow> (string \<times> batting_stat) list \<Rightarrow> py_error + (string \<times> batting_stat) list" where
  "process_game_batting_stats game batting_stats =
     bind (process_lines add_batting default_batting (get_field (home_team game) ''Unknown'')
             (get_field (home_team_batting game) []) batting_stats)
       (process_lines add_batting default_batting (get_field (away_team game) ''Unknown'')
             (get_field (away_team_batting game) []))"

definition process_game_pitching_stats ::
  "game \<Rightarrow> (string \<times> pitching_stat) list \<Rightarrow> py_error + (string \<times> pitching_stat) list" where
  "process_game_pitching_stats game pitching_stats =
     bind (process_lines add_pitching default_pitching (get_field (home_team game) ''Unknown'')
             (get_field (home_team_pitching game) []) pitching_stats)
       (process_lines add_pitching default_pitching (get_field (away_team game) ''Unknown'')
             (get_field (away_team_pitching game) []))"

text \<open>The loop \<^verbatim>\<open>for game in games\<close> of \<^verbatim>\<open>calculate_aggregate_stats\<close>.\<close>

fun process_games ::
  "game list \<Rightarrow> (string \<times> batting_stat) list \<Rightarrow> (string \<times> pitching_stat) list \<Rightarrow>
   py_error + ((string \<times> batting_stat) list \<times> (string \<times> pitching_stat) list)" where
  "process_games [] batting_stats pitching_stats = Inr (batting_stats, pitching_stats)"
| "process_games (game # rest) batting_stats pitching_stats =
     bind (process_game_batting_stats game batting_stats) (\<lambda>bs.
     bind (process_game_pitching_stats game pitching_stats) (\<lambda>ps.
       process_games rest bs ps))"

text \<open>The body of the loop of \<^verbatim>\<open>_calculate_batting_averages\<close>.\<close>

definition total_bases :: "batting_stat \<Rightarrow> int" where
  "total_bases stats =
     hits stats - doubles stats - triples stats - home_runs stats
       + doubles stats * 2 + triples stats * 3 + home_runs stats * 4"

definition set_batting_average :: "batting_stat \<Rightarrow> py_error + batting_stat" where
  "set_batting_average stats =
     (if 0 < at_bats stats then
        bind (int_truediv (hits stats) (at_bats stats)) (\<lambda>q.
        bind (py_round q 3) (\<lambda>r. Inr (stats\<lparr>batting_average := r\<rparr>)))
      else Inr stats)"

definition set_on_base_percentage :: "batting_stat \<Rightarrow> py_error + batting_stat" where
  "set_on_base_percentage stats =
     (if 0 < at_bats stats + walks stats then
        bind (int_truediv (hits stats + walks stats) (at_bats stats + walks stats)) (\<lambda>q.
        bind (py_round q 3) (\<lambda>r. Inr (stats\<lparr>on_base_percentage := r\<rparr>)))
      else Inr stats)"

definition set_slugging_percentage :: "batting_stat \<Rightarrow> py_error + batting_stat" where
  "set_slugging_percentage stats =
     (if 0 < at_bats stats then
        bind (int_truediv (total_bases stats) (at_bats stats)) (\<lambda>q.
        bind (py_round q 3) (\<lambda>r. Inr (stats\<lparr>slugging_percentage := r\<rparr>)))
      else Inr stats)"

definition set_ops :: "batting_stat \<Rightarrow> py_error + batting_stat" where
  "set_ops stats =
     bind (py_round (fadd (on_base_percentage stats) (slugging_percentage stats)) 3) (\<lambda>r.
       Inr (stats\<lparr>ops := r\<rparr>))"

definition batting_averages :: "batting_stat \<Rightarrow> py_error + batting_stat" where
  "batting_averages stats =
     bind (set_batting_average stats) (\<lambda>s1.
     bind (set_on_base_percentage s1) (\<lambda>s2.
     bind (set_slugging_percentage s2) set_ops))"

fun calculate_batting_averages ::
  "(string \<times> batting_stat) list \<Rightarrow> py_error + batting_stat list" where
  "calculate_batting_averages [] = Inr []"
| "calculate_batting_averages (item # rest) =
     bind (batting_averages (snd item)) (\<lambda>stats.
     bind (calculate_batting_averages rest) (\<lambda>batting_list. Inr (stats # batting_list)))"

text \<open>The body of the loop of \<^verbatim>\<open>_calculate_pitching_averages\<close>.\<close>

definition int_div_float :: "int \<Rightarrow> pyfloat \<Rightarrow> py_error + pyfloat" where
  "int_div_float n x = bind (float_of_int n) (\<lambda>y. fdiv y x)"

definition set_era :: "pitching_stat \<Rightarrow> py_error + pitching_stat" where
  "set_era stats =
     (if fpositive (innings_pitched stats) then
        bind (int_div_float (earned_runs stats * 9) (innings_pitched stats)) (\<lambda>q.
        bind (py_round q 2) (\<lambda>r. Inr (stats\<lparr>era := r\<rparr>)))
      else Inr stats)"

definition set_whip :: "pitching_stat \<Rightarrow> py_error + pitching_stat" where
  "set_whip stats =
     (if fpositive (innings_pitched stats) then
        bind (int_div_float (hits_allowed stats + walks_allowed stats) (innings_pitched stats)) (\<lambda>q.
        bind (py_round q 2) (\<lambda>r. Inr (stats\<lparr>whip := r\<rparr>)))
      else Inr stats)"

definition pitching_averages :: "pitching_stat \<Rightarrow> py_error + pitching_stat" where
  "pitching_averages stats = bind (set_era stats) set_whip"

fun calculate_pitching_averages ::
  "(string \<times> pitching_stat) list \<Rightarrow> py_error + pitching_stat list" where
  "calculate_pitching_averages [] = Inr []"
| "calculate_pitching_averages (item # rest) =
     bind (pitching_averages (snd item)) (\<lambda>stats.
     bind (calculate_pitching_averages rest) (\<lambda>pitching_list. Inr (stats # pitching_list)))"

definition calculate_aggregate_stats ::
  "game list \<Rightarrow> py_error + (batting_stat list \<times> pitching_stat list)" where
  "calculate_aggregate_stats game_list =
     bind (process_games game_list [] []) (\<lambda>acc.
     bind (calculate_batting_averages (fst acc)) (\<lambda>batting_list.
     bind (calculate_pitching_averages (snd acc)) (\<lambda>pitching_list.
       Inr (batting_list, pitching_list))))"

subsection \<open>Team records: \<^verbatim>\<open>get_team_summary\<close>\<close>

text \<open>
  The value of the \<^verbatim>\<open>defaultdict\<close> of team records is the dictionary
  \<^verbatim>\<open>{'wins': 0, 'losses': 0, 'games_seen': 0}\<close>; its fields \<^verbatim>\<open>wins\<close> and \<^verbatim>\<open>losses\<close>
  are \<open>team_wins\<close> and \<open>team_losses\<close> here.
\<close>

record team_record =
  team_wins :: int
  team_losses :: int
  games_seen :: int

definition default_team_record :: team_record where
  "default_team_record = \<lparr>team_wins = 0, team_losses = 0, games_seen = 0\<rparr>"

text \<open>
  \<^verbatim>\<open>team_records[t][field] += 1\<close>: the record of \<open>t\<close> is created when it is missing, and
  updated in place.
\<close>

definition bump ::
  "string \<Rightarrow> (team_record \<Rightarrow> team_record) \<Rightarrow> (string \<times> team_record) list \<Rightarrow> (string \<times> team_record) list" where
  "bump t f team_records =
     AList.update t (f (get_field (map_of team_records t) default_team_record)) team_records"

definition add_win :: "team_record \<Rightarrow> team_record" where
  "add_win r = r\<lparr>team_wins := team_wins r + 1\<rparr>"

definition add_loss :: "team_record \<Rightarrow> team_record" where
  "add_loss r = r\<lparr>team_losses := team_losses r + 1\<rparr>"

definition add_seen :: "team_record \<Rightarrow> team_record" where
  "add_seen r = r\<lparr>games_seen := games_seen r + 1\<rparr>"

text \<open>
  The \<^verbatim>\<open>if\<close>/\<^verbatim>\<open>elif\<close> on the two scores; a tie changes nothing.
\<close>

definition record_result ::
  "string \<Rightarrow> string \<Rightarrow> int \<Rightarrow> int \<Rightarrow> (string \<times> team_record) list \<Rightarrow> (string \<times> team_record) list" where
  "record_result home away hs as team_records =
     (if as < hs then bump away add_loss (bump home add_win team_records)
      else if hs < as then bump home add_loss (bump away add_win team_records)
      else team_records)"

text \<open>
  The body of the loop \<^verbatim>\<open>for game in games\<close>.
\<close>

definition team_game ::
  "game \<Rightarrow> (string \<times> team_record) list \<Rightarrow> py_error + (string \<times> team_record) list" where
  "team_game g team_records =
     bind (py_int (get_field (home_score g) (PInt 0))) (\<lambda>hs.
     bind (py_int (get_field (away_score g) (PInt 0))) (\<lambda>as.
       Inr (record_result (get_field (home_team g) ''Unknown'') (get_field (away_team g) ''Unknown'') hs as
              (bump (get_field (away_team g) ''Unknown'') add_seen
                 (bump (get_field (home_team g) ''Unknown'') add_seen team_records)))))"

fun team_games ::
  "game list \<Rightarrow> (string \<times> team_record) list \<Rightarrow> py_error + (string \<times> team_record) list" where
  "team_games [] team_records = Inr team_records"
| "team_games (g # rest) team_records = bind (team_game g team_records) (team_games rest)"

definition get_team_summary :: "game list \<Rightarrow> py_error + (string \<times> team_record) list" where
  "get_team_summary game_list = team_games game_list []"

section \<open>The aggregator on a store of objects\<close>

text \<open>
  The functions above pass the dictionaries of the aggregator as values: they cannot say
  that an object is changed in place, or that it is not. For that, the aggregator is
  written a second time, on a store of objects with addresses. The store holds the list
  of games (a list of addresses), the game dictionaries (each with its lines), and the
  statistics dictionaries that the \<^verbatim>\<open>defaultdict\<close>s create; a reference is an address.
  The two \<^verbatim>\<open>defaultdict\<close>s themselves are local variables of the call; they map a key to
  the address of its statistics dictionary. Every function returns the store it leaves,
  also when it raises. The conversions and the arithmetic are those of the first
  embedding.
\<close>

text \<open>
  The objects of the store, and what a reference of each kind reads from one.
\<close>

datatype obj = GameObj game | ListObj "nat list" | BattingObj batting_stat | PitchingObj pitching_stat

type_synonym store = "obj list"

fun game_of :: "obj \<Rightarrow> game option" where
  "game_of (GameObj g) = Some g"
| "game_of _ = None"

fun list_of :: "obj \<Rightarrow> nat list option" where
  "list_of (ListObj refs) = Some refs"
| "list_of _ = None"

fun batting_of :: "obj \<Rightarrow> batting_stat option" where
  "batting_of (BattingObj s) = Some s"
| "batting_of _ = None"

fun pitching_of :: "obj \<Rightarrow> pitching_stat option" where
  "pitching_of (PitchingObj s) = Some s"
| "pitching_of _ = None"

text \<open>
  Following a reference; a reference to an object of another kind, or to none, raises.
\<close>

definition deref :: "(obj \<Rightarrow> 'a option) \<Rightarrow> store \<Rightarrow> nat \<Rightarrow> py_error + 'a" where
  "deref unwrap st a =
     (if a < length st then (case unwrap (st ! a) of None \<Rightarrow> Inl TypeError | Some x \<Rightarrow> Inr x)
      else Inl TypeError)"

text \<open>
  One statement after another: an exception ends the sequence, and the store stays as the
  statements before it left it.
\<close>

fun and_then ::
  "store \<times> (py_error + 'a) \<Rightarrow> (store \<Rightarrow> 'a \<Rightarrow> store \<times> (py_error + 'b)) \<Rightarrow> store \<times> (py_error + 'b)" where
  "and_then (st, Inl e) f = (st, Inl e)"
| "and_then (st, Inr x) f = f st x"

text \<open>
  \<^verbatim>\<open>stats = batting_stats[player_id]\<close> on a \<^verbatim>\<open>defaultdict\<close>: the address stored under the key;
  for a new key the default dictionary is created as a new object, and entered under the key.
\<close>

definition getitem ::
  "obj \<Rightarrow> string \<Rightarrow> store \<Rightarrow> (string \<times> nat) list \<Rightarrow> (store \<times> (string \<times> nat) list) \<times> nat" where
  "getitem fresh k st stats_dict =
     (case map_of stats_dict k of
        Some a \<Rightarrow> ((st, stats_dict), a)
      | None \<Rightarrow> ((st @ [fresh], stats_dict @ [(k, length st)]), length st))"

text \<open>
  A sequence of statements \<^verbatim>\<open>stats[...] = ...\<close> and \<^verbatim>\<open>stats[...] += ...\<close> on the object at address
  \<open>a\<close>: each reads the object, may raise, and writes the object back.
\<close>

fun store_statements ::
  "('s \<Rightarrow> obj) \<Rightarrow> (obj \<Rightarrow> 's option) \<Rightarrow> nat \<Rightarrow> (store \<Rightarrow> 's \<Rightarrow> py_error + 's) list \<Rightarrow> store \<Rightarrow>
   store \<times> (py_error + unit)" where
  "store_statements wrap unwrap a [] st = (st, Inr ())"
| "store_statements wrap unwrap a (statement # rest) st =
     and_then (st, bind (deref unwrap st a) (statement st))
       (\<lambda>st stats. store_statements wrap unwrap a rest (st[a := wrap stats]))"

text \<open>
  The nine statements \<^verbatim>\<open>stats[k] += int(player.get(k, 0))\<close> of a batting line, and the ten of a
  pitching line, one by one.
\<close>

definition batting_additions :: "player_line \<Rightarrow> (batting_stat \<Rightarrow> py_error + batting_stat) list" where
  "batting_additions player =
     [\<lambda>stats. bind (int_field player ''at_bats'') (\<lambda>v. Inr (stats\<lparr>at_bats := at_bats stats + v\<rparr>)),
      \<lambda>stats. bind (int_field player ''hits'') (\<lambda>v. Inr (stats\<lparr>hits := hits stats + v\<rparr>)),
      \<lambda>stats. bind (int_field player ''runs'') (\<lambda>v. Inr (stats\<lparr>runs := runs stats + v\<rparr>)),
      \<lambda>stats. bind (int_field player ''rbis'') (\<lambda>v. Inr (stats\<lparr>rbis := rbis stats + v\<rparr>)),
      \<lambda>stats. bind (int_field player ''doubles'') (\<lambda>v. Inr (stats\<lparr>doubles := doubles stats + v\<rparr>)),
      \<lambda>stats. bind (int_field player ''triples'') (\<lambda>v. Inr (stats\<lparr>triples := triples stats + v\<rparr>)),
      \<lambda>stats. bind (int_field player ''home_runs'') (\<lambda>v. Inr (stats\<lparr>home_runs := home_runs stats + v\<rparr>)),
      \<lambda>stats. bind (int_field player ''walks'') (\<lambda>v. Inr (stats\<lparr>walks := walks stats + v\<rparr>)),
      \<lambda>stats. bind (int_field player ''strikeouts'') (\<lambda>v. Inr (stats\<lparr>strikeouts := strikeouts stats + v\<rparr>))]"

definition pitching_additions :: "player_line \<Rightarrow> (pitching_stat \<Rightarrow> py_error + pitching_stat) list" where
  "pitching_additions player =
     [\<lambda>stats. bind (int_field player ''wins'') (\<lambda>v. Inr (stats\<lparr>wins := wins stats + v\<rparr>)),
      \<lambda>stats. bind (int_field player ''losses'') (\<lambda>v. Inr (stats\<lparr>losses := losses stats + v\<rparr>)),
      \<lambda>stats. bind (int_field player ''saves'') (\<lambda>v. Inr (stats\<lparr>saves := saves stats + v\<rparr>)),
      \<lambda>stats. bind (py_float (dict_get (box player) ''innings_pitched'' (PInt 0)))
                 (\<lambda>v. Inr (stats\<lparr>innings_pitched := fadd (innings_pitched stats) v\<rparr>)),
      \<lambda>stats. bind (int_field player ''hits_allowed'') (\<lambda>v. Inr (stats\<lparr>hits_allowed := hits_allowed stats + v\<rparr>)),
      \<lambda>stats. bind (int_field player ''runs_allowed'') (\<lambda>v. Inr (stats\<lparr>runs_allowed := runs_allowed stats + v\<rparr>)),
      \<lambda>stats. bind (int_field player ''earned_runs'') (\<lambda>v. Inr (stats\<lparr>earned_runs := earned_runs stats + v\<rparr>)),
      \<lambda>stats. bind (int_field player ''walks_allowed'') (\<lambda>v. Inr (stats\<lparr>walks_allowed := walks_allowed stats + v\<rparr>)),
      \<lambda>stats. bind (int_field player ''strikeouts'')
                 (\<lambda>v. Inr (stats\<lparr>pitching_strikeouts := pitching_strikeouts stats + v\<rparr>)),
      \<lambda>stats. bind (int_field player ''home_runs_allowed'')
                 (\<lambda>v. Inr (stats\<lparr>home_runs_allowed := home_runs_allowed stats + v\<rparr>))]"

text \<open>
  The body of a \<^verbatim>\<open>for player in ...\<close> loop after the lookup: the name, the team (read from the
  game object), one more game, and the additions.
\<close>

definition line_statements ::
  "(game \<Rightarrow> string option) \<Rightarrow> nat \<Rightarrow> player_line \<Rightarrow>
   ('a stat_base_scheme \<Rightarrow> py_error + 'a stat_base_scheme) list \<Rightarrow>
   (store \<Rightarrow> 'a stat_base_scheme \<Rightarrow> py_error + 'a stat_base_scheme) list" where
  "line_statements side game_ref player additions =
     [\<lambda>st stats. Inr (stats\<lparr>player_name := get_field (name player) ''Unknown''\<rparr>),
      \<lambda>st stats. bind (deref game_of st game_ref)
                    (\<lambda>game. Inr (stats\<lparr>team := get_field (side game) ''Unknown''\<rparr>)),
      \<lambda>st stats. Inr (stats\<lparr>games := games stats + 1\<rparr>)]
     @ map (\<lambda>statement st. statement) additions"

text \<open>
  One pass of the body of a \<^verbatim>\<open>for player in ...\<close> loop, and the loop.
\<close>

definition store_line ::
  "('a stat_base_scheme \<Rightarrow> obj) \<Rightarrow> (obj \<Rightarrow> 'a stat_base_scheme option) \<Rightarrow> 'a stat_base_scheme \<Rightarrow>
   (player_line \<Rightarrow> ('a stat_base_scheme \<Rightarrow> py_error + 'a stat_base_scheme) list) \<Rightarrow>
   (game \<Rightarrow> string option) \<Rightarrow> nat \<Rightarrow> player_line \<Rightarrow> store \<Rightarrow> (string \<times> nat) list \<Rightarrow>
   store \<times> (py_error + (string \<times> nat) list)" where
  "store_line wrap unwrap dflt additions side game_ref player st stats_dict =
     (case getitem (wrap dflt) (player_key player) st stats_dict of
        ((st1, stats_dict1), a) \<Rightarrow>
          and_then
            (store_statements wrap unwrap a (line_statements side game_ref player (additions player)) st1)
            (\<lambda>st2 u. (st2, Inr stats_dict1)))"

fun store_lines ::
  "('a stat_base_scheme \<Rightarrow> obj) \<Rightarrow> (obj \<Rightarrow> 'a stat_base_scheme option) \<Rightarrow> 'a stat_base_scheme \<Rightarrow>
   (player_line \<Rightarrow> ('a stat_base_scheme \<Rightarrow> py_error + 'a stat_base_scheme) list) \<Rightarrow>
   (game \<Rightarrow> string option) \<Rightarrow> nat \<Rightarrow> player_line list \<Rightarrow> store \<Rightarrow> (string \<times> nat) list \<Rightarrow>
   store \<times> (py_error + (string \<times> nat) list)" where
  "store_lines wrap unwrap dflt additions side game_ref [] st stats_dict = (st, Inr stats_dict)"
| "store_lines wrap unwrap dflt additions side game_ref (player # rest) st stats_dict =
     and_then (store_line wrap unwrap dflt additions side game_ref player st stats_dict)
       (store_lines wrap unwrap dflt additions side game_ref rest)"

text \<open>
  The loop over the lines of one side of a game; the list of lines is read from the game
  object.
\<close>

definition store_side ::
  "('a stat_base_scheme \<Rightarrow> obj) \<Rightarrow> (obj \<Rightarrow> 'a stat_base_scheme option) \<Rightarrow> 'a stat_base_scheme \<Rightarrow>
   (player_line \<Rightarrow> ('a stat_base_scheme \<Rightarrow> py_error + 'a stat_base_scheme) list) \<Rightarrow>
   (game \<Rightarrow> player_line list option) \<Rightarrow> (game \<Rightarrow> string option) \<Rightarrow> nat \<Rightarrow> store \<Rightarrow>
   (string \<times> nat) list \<Rightarrow> store \<times> (py_error + (string \<times> nat) list)" where
  "store_side wrap unwrap dflt additions lines side game_ref st stats_dict =
     and_then (st, deref game_of st game_ref)
       (\<lambda>st game. store_lines wrap unwrap dflt additions side game_ref (get_field (lines game) []) st
                     stats_dict)"

text \<open>
  \<^verbatim>\<open>_process_game_batting_stats\<close> and \<^verbatim>\<open>_process_game_pitching_stats\<close>: the home side, then the
  away side.
\<close>

definition store_game_batting ::
  "nat \<Rightarrow> store \<Rightarrow> (string \<times> nat) list \<Rightarrow> store \<times> (py_error + (string \<times> nat) list)" where
  "store_game_batting game_ref st batting_stats =
     and_then
       (store_side BattingObj batting_of default_batting batting_additions home_team_batting home_team
          game_ref st batting_stats)
       (store_side BattingObj batting_of default_batting batting_additions away_team_batting away_team
          game_ref)"

definition store_game_pitching ::
  "nat \<Rightarrow> store \<Rightarrow> (string \<times> nat) list \<Rightarrow> store \<times> (py_error + (string \<times> nat) list)" where
  "store_game_pitching game_ref st pitching_stats =
     and_then
       (store_side PitchingObj pitching_of default_pitching pitching_additions home_team_pitching home_team
          game_ref st pitching_stats)
       (store_side PitchingObj pitching_of default_pitching pitching_additions away_team_pitching away_team
          game_ref)"

text \<open>
  The loop \<^verbatim>\<open>for game in games\<close> over the addresses in the list of games.
\<close>

fun store_games ::
  "nat list \<Rightarrow> store \<Rightarrow> (string \<times> nat) list \<Rightarrow> (string \<times> nat) list \<Rightarrow>
   store \<times> (py_error + (string \<times> nat) list \<times> (string \<times> nat) list)" where
  "store_games [] st batting_stats pitching_stats = (st, Inr (batting_stats, pitching_stats))"
| "store_games (game_ref # rest) st batting_stats pitching_stats =
     and_then (store_game_batting game_ref st batting_stats) (\<lambda>st bs.
     and_then (store_game_pitching game_ref st pitching_stats) (\<lambda>st ps.
       store_games rest st bs ps))"

text \<open>
  The loops of \<^verbatim>\<open>_calculate_batting_averages\<close> and \<^verbatim>\<open>_calculate_pitching_averages\<close>: the statements
  that set the derived statistics in the object, then \<^verbatim>\<open>append(dict(stats))\<close>, which copies it.
\<close>

fun store_averages ::
  "('s \<Rightarrow> obj) \<Rightarrow> (obj \<Rightarrow> 's option) \<Rightarrow> ('s \<Rightarrow> py_error + 's) list \<Rightarrow> (string \<times> nat) list \<Rightarrow> store \<Rightarrow>
   store \<times> (py_error + 's list)" where
  "store_averages wrap unwrap statements [] st = (st, Inr [])"
| "store_averages wrap unwrap statements (item # rest) st =
     and_then (store_statements wrap unwrap (snd item) (map (\<lambda>statement st. statement) statements) st)
       (\<lambda>st u.
     and_then (st, deref unwrap st (snd item)) (\<lambda>st stats.
     and_then (store_averages wrap unwrap statements rest st) (\<lambda>st stats_list.
       (st, Inr (stats # stats_list)))))"

text \<open>
  \<^verbatim>\<open>calculate_aggregate_stats\<close>: \<open>games_ref\<close> is the argument \<^verbatim>\<open>games\<close>, a reference to the list
  of games. The two dictionaries start empty; the result is the pair of lists of copies.
\<close>

definition store_aggregate ::
  "nat \<Rightarrow> store \<Rightarrow> store \<times> (py_error + batting_stat list \<times> pitching_stat list)" where
  "store_aggregate games_ref st =
     and_then (st, deref list_of st games_ref) (\<lambda>st game_refs.
     and_then (store_games game_refs st [] []) (\<lambda>st acc.
     and_then (store_averages BattingObj batting_of
                 [set_batting_average, set_on_base_percentage, set_slugging_percentage, set_ops]
                 (fst acc) st) (\<lambda>st batting_list.
     and_then (store_averages PitchingObj pitching_of [set_era, set_whip] (snd acc) st)
       (\<lambda>st pitching_list. (st, Inr (batting_list, pitching_list))))))"

section \<open>Notions used in the statements\<close>

text \<open>
  The definitions of this section are not part of the program. They name what the
  statements below talk about: the lines of a sequence of games in the order the
  aggregator processes them, the returned records paired with their keys, and the values
  the conversions give.
\<close>

text \<open>
  Statements about arbitrary text are made for ASCII text of at most 4300 characters. On
  such text \<^verbatim>\<open>int\<close>, \<^verbatim>\<open>float\<close> and \<^verbatim>\<open>str.isdigit\<close> do not depend on the
  interpreter's release or settings: the limit on the digits of an integer literal cannot
  apply, and no character beyond ASCII is involved.
\<close>

definition plain_text :: "string \<Rightarrow> bool" where
  "plain_text s = (list_all (\<lambda>c. (of_char c :: nat) < 128) s \<and> length s \<le> 4300)"

text \<open>
  The batting lines of a game in the order \<^verbatim>\<open>_process_game_batting_stats\<close> reads them (home
  side, then away side), each with the team it is credited to; likewise for pitching, and
  for a sequence of games.
\<close>

definition game_batting_lines :: "game \<Rightarrow> (string \<times> player_line) list" where
  "game_batting_lines g =
     map (Pair (get_field (home_team g) ''Unknown'')) (get_field (home_team_batting g) [])
     @ map (Pair (get_field (away_team g) ''Unknown'')) (get_field (away_team_batting g) [])"

definition game_pitching_lines :: "game \<Rightarrow> (string \<times> player_line) list" where
  "game_pitching_lines g =
     map (Pair (get_field (home_team g) ''Unknown'')) (get_field (home_team_pitching g) [])
     @ map (Pair (get_field (away_team g) ''Unknown'')) (get_field (away_team_pitching g) [])"

definition batting_lines :: "game list \<Rightarrow> (string \<times> player_line) list" where
  "batting_lines gs = concat (map game_batting_lines gs)"

definition pitching_lines :: "game list \<Rightarrow> (string \<times> player_line) list" where
  "pitching_lines gs = concat (map game_pitching_lines gs)"

text \<open>
  The loop over lines, each with its team: the four loops of a game are instances of it.
\<close>

fun process_tagged ::
  "(player_line \<Rightarrow> 'a stat_base_scheme \<Rightarrow> py_error + 'a stat_base_scheme) \<Rightarrow> 'a stat_base_scheme \<Rightarrow>
   (string \<times> player_line) list \<Rightarrow> (string \<times> 'a stat_base_scheme) list \<Rightarrow>
   py_error + (string \<times> 'a stat_base_scheme) list" where
  "process_tagged add_stats dflt [] stats_dict = Inr stats_dict"
| "process_tagged add_stats dflt (entry # rest) stats_dict =
     bind (process_line add_stats dflt (fst entry) (snd entry) stats_dict)
       (process_tagged add_stats dflt rest)"

text \<open>
  The lines that accumulate under the key \<open>k\<close>, in processing order.
\<close>

definition lines_of_key :: "string \<Rightarrow> (string \<times> player_line) list \<Rightarrow> (string \<times> player_line) list" where
  "lines_of_key k tls = filter (\<lambda>entry. player_key (snd entry) = k) tls"

text \<open>
  The first three statements of a loop body: name, team, and one more game.
\<close>

definition touched :: "string \<Rightarrow> player_line \<Rightarrow> 'a stat_base_scheme \<Rightarrow> 'a stat_base_scheme" where
  "touched t l s = s\<lparr>player_name := get_field (name l) ''Unknown'', team := t, games := games s + 1\<rparr>"

text \<open>
  The value \<^verbatim>\<open>int(player.get(k, 0))\<close> adds, and the one \<^verbatim>\<open>float(player.get(k, 0))\<close> adds
  (taken as zero where the conversion raises).
\<close>

definition field_value :: "player_line \<Rightarrow> string \<Rightarrow> int" where
  "field_value l k = (case int_field l k of Inl e \<Rightarrow> 0 | Inr n \<Rightarrow> n)"

definition float_value :: "player_line \<Rightarrow> string \<Rightarrow> pyfloat" where
  "float_value l k = (case py_float (dict_get (box l) k (PInt 0)) of Inl e \<Rightarrow> fzero | Inr x \<Rightarrow> x)"

text \<open>
  The counting fields read from a batting line and from a pitching line.
\<close>

definition batting_keys :: "string list" where
  "batting_keys = [''at_bats'', ''hits'', ''runs'', ''rbis'', ''doubles'', ''triples'', ''home_runs'',
                   ''walks'', ''strikeouts'']"

definition pitching_keys :: "string list" where
  "pitching_keys = [''wins'', ''losses'', ''saves'', ''hits_allowed'', ''runs_allowed'', ''earned_runs'',
                    ''walks_allowed'', ''strikeouts'', ''home_runs_allowed'']"

text \<open>
  The conversions of a line raise nothing.
\<close>

definition int_ok :: "player_line \<Rightarrow> string \<Rightarrow> bool" where
  "int_ok l k = (\<exists>n. int_field l k = Inr n)"

definition batting_ok :: "player_line \<Rightarrow> bool" where
  "batting_ok l = (\<forall>k \<in> set batting_keys. int_ok l k)"

definition pitching_ok :: "player_line \<Rightarrow> bool" where
  "pitching_ok l = ((\<forall>k \<in> set pitching_keys. int_ok l k)
                    \<and> (\<exists>x. py_float (dict_get (box l) ''innings_pitched'' (PInt 0)) = Inr x))"

text \<open>
  An exception that the conversion of a numeric field of some line raises: \<^verbatim>\<open>int\<close> on a
  counting field of a batting or pitching line, or \<^verbatim>\<open>float\<close> on the innings of a pitching line.
\<close>

definition raised_by_conversion :: "game list \<Rightarrow> py_error \<Rightarrow> bool" where
  "raised_by_conversion gs err =
     ((\<exists>e \<in> set (batting_lines gs). \<exists>k \<in> set batting_keys. int_field (snd e) k = Inl err)
      \<or> (\<exists>e \<in> set (pitching_lines gs).
            (\<exists>k \<in> set pitching_keys. int_field (snd e) k = Inl err)
            \<or> py_float (dict_get (box (snd e)) ''innings_pitched'' (PInt 0)) = Inl err))"

text \<open>
  The records \<^verbatim>\<open>calculate_aggregate_stats\<close> returns, each paired with the key it was
  accumulated under (the returned dictionaries do not hold the key). The function itself
  returns the second components: lemma \<open>calculate_aggregate_stats_tables\<close>.
\<close>

definition aggregate_tables ::
  "game list \<Rightarrow> py_error + ((string \<times> batting_stat) list \<times> (string \<times> pitching_stat) list)" where
  "aggregate_tables game_list =
     bind (process_games game_list [] []) (\<lambda>acc.
     bind (calculate_batting_averages (fst acc)) (\<lambda>batting_list.
     bind (calculate_pitching_averages (snd acc)) (\<lambda>pitching_list.
       Inr (zip (map fst (fst acc)) batting_list, zip (map fst (snd acc)) pitching_list))))"

text \<open>
  \<^verbatim>\<open>round(a / b, 3)\<close> on integers, and \<^verbatim>\<open>round(n / x, 2)\<close> on an integer and a float.
\<close>

definition rounded_ratio :: "int \<Rightarrow> int \<Rightarrow> py_error + pyfloat" where
  "rounded_ratio a b = bind (int_truediv a b) (\<lambda>q. py_round q 3)"

definition rounded_int_float :: "int \<Rightarrow> pyfloat \<Rightarrow> py_error + pyfloat" where
  "rounded_int_float n x = bind (int_div_float n x) (\<lambda>q. py_round q 2)"

text \<open>
  The derived statistics still have the value the \<^verbatim>\<open>defaultdict\<close> gave them.
\<close>

definition derived_zero :: "batting_stat \<Rightarrow> bool" where
  "derived_zero s = (batting_average s = fzero \<and> on_base_percentage s = fzero
                     \<and> slugging_percentage s = fzero \<and> ops s = fzero)"

definition rates_zero :: "pitching_stat \<Rightarrow> bool" where
  "rates_zero s = (era s = fzero \<and> whip s = fzero)"

text \<open>
  The accumulation key, written out: the \<^verbatim>\<open>player_id\<close> when the line has one, else
  \<^verbatim>\<open>unknown_\<close> followed by the name, or by \<^verbatim>\<open>unnamed\<close> when the line has no name either.
\<close>

definition resolved_key :: "player_line \<Rightarrow> string" where
  "resolved_key l =
     (case player_id l of
        Some pid \<Rightarrow> pid
      | None \<Rightarrow> ''unknown_'' @ (case name l of Some n \<Rightarrow> n | None \<Rightarrow> ''unnamed''))"

text \<open>
  The counting field of an accumulated record under its dictionary key.
\<close>

definition batting_field :: "string \<Rightarrow> batting_stat \<Rightarrow> int" where
  "batting_field k s =
     (if k = ''at_bats'' then at_bats s else if k = ''hits'' then hits s
      else if k = ''runs'' then runs s else if k = ''rbis'' then rbis s
      else if k = ''doubles'' then doubles s else if k = ''triples'' then triples s
      else if k = ''home_runs'' then home_runs s else if k = ''walks'' then walks s
      else if k = ''strikeouts'' then strikeouts s else 0)"

definition pitching_field :: "string \<Rightarrow> pitching_stat \<Rightarrow> int" where
  "pitching_field k s =
     (if k = ''wins'' then wins s else if k = ''losses'' then losses s
      else if k = ''saves'' then saves s else if k = ''hits_allowed'' then hits_allowed s
      else if k = ''runs_allowed'' then runs_allowed s else if k = ''earned_runs'' then earned_runs s
      else if k = ''walks_allowed'' then walks_allowed s
      else if k = ''strikeouts'' then pitching_strikeouts s
      else if k = ''home_runs_allowed'' then home_runs_allowed s else 0)"

text \<open>
  The teams of a game as \<^verbatim>\<open>get_team_summary\<close> reads them, its scores once converted, and
  who won.
\<close>

definition home_name :: "game \<Rightarrow> string" where
  "home_name g = get_field (home_team g) ''Unknown''"

definition away_name :: "game \<Rightarrow> string" where
  "away_name g = get_field (away_team g) ''Unknown''"

definition score_ok :: "game \<Rightarrow> bool" where
  "score_ok g = ((\<exists>n. py_int (get_field (home_score g) (PInt 0)) = Inr n)
                 \<and> (\<exists>n. py_int (get_field (away_score g) (PInt 0)) = Inr n))"

text \<open>
  A score that is text is plain text.
\<close>

definition plain_value :: "pyval \<Rightarrow> bool" where
  "plain_value v = (case v of PStr s \<Rightarrow> plain_text s | _ \<Rightarrow> True)"

definition score_plain :: "game \<Rightarrow> bool" where
  "score_plain g = (plain_value (get_field (home_score g) (PInt 0))
                    \<and> plain_value (get_field (away_score g) (PInt 0)))"

definition score_of :: "pyval option \<Rightarrow> int" where
  "score_of v = (case py_int (get_field v (PInt 0)) of Inl e \<Rightarrow> 0 | Inr n \<Rightarrow> n)"

definition home_won :: "game \<Rightarrow> bool" where
  "home_won g = (score_of (away_score g) < score_of (home_score g))"

definition away_won :: "game \<Rightarrow> bool" where
  "away_won g = (score_of (home_score g) < score_of (away_score g))"

text \<open>
  The record of a team (all zero for a team that never played), the number of games with a
  property, and a field summed over all teams.
\<close>

definition team_of :: "(string \<times> team_record) list \<Rightarrow> string \<Rightarrow> team_record" where
  "team_of team_records t = get_field (map_of team_records t) default_team_record"

definition count_games :: "('a \<Rightarrow> bool) \<Rightarrow> 'a list \<Rightarrow> int" where
  "count_games P xs = int (length (filter P xs))"

definition team_total :: "(team_record \<Rightarrow> int) \<Rightarrow> (string \<times> team_record) list \<Rightarrow> int" where
  "team_total F team_records = sum_list (map (\<lambda>entry. F (snd entry)) team_records)"

text \<open>
  A sequence of statements on a value, and the loop over the items of a dictionary of
  values: what the statements of the store embedding do to the object they work on.
\<close>

fun run_statements :: "('s \<Rightarrow> py_error + 's) list \<Rightarrow> 's \<Rightarrow> py_error + 's" where
  "run_statements [] s = Inr s"
| "run_statements (statement # rest) s = bind (statement s) (run_statements rest)"

fun run_items :: "('s \<Rightarrow> py_error + 's) \<Rightarrow> (string \<times> 's) list \<Rightarrow> py_error + 's list" where
  "run_items f [] = Inr []"
| "run_items f (item # rest) =
     bind (f (snd item)) (\<lambda>stats. bind (run_items f rest) (\<lambda>stats_list. Inr (stats # stats_list)))"

text \<open>
  A dictionary of addresses \<open>d\<close> in the store \<open>st\<close> stands for the dictionary of values
  \<open>pd\<close>: same keys in the same order, each address created by the call (not below
  \<open>n\<close>) and holding the value, no address used twice.
\<close>

definition stats_rel ::
  "(obj \<Rightarrow> 's option) \<Rightarrow> nat \<Rightarrow> store \<Rightarrow> (string \<times> nat) list \<Rightarrow> (string \<times> 's) list \<Rightarrow> bool" where
  "stats_rel unwrap n st d pd =
     (list_all2 (\<lambda>ra ks. fst ra = fst ks \<and> n \<le> snd ra \<and> snd ra < length st
                           \<and> unwrap (st ! snd ra) = Some (snd ks)) d pd
      \<and> distinct (map fst d) \<and> distinct (map snd d))"

text \<open>
  From \<open>st\<close> to \<open>st'\<close> nothing was removed, and the objects below address \<open>n\<close> and
  those of another kind are the same; \<open>kept\<close> is the part about the addresses below
  \<open>n\<close>.
\<close>

definition undisturbed :: "(obj \<Rightarrow> 's option) \<Rightarrow> nat \<Rightarrow> store \<Rightarrow> store \<Rightarrow> bool" where
  "undisturbed unwrap n st st' =
     (length st \<le> length st'
      \<and> (\<forall>b < length st. b < n \<or> unwrap (st ! b) = None \<longrightarrow> st' ! b = st ! b))"

definition kept :: "nat \<Rightarrow> store \<Rightarrow> store \<Rightarrow> bool" where
  "kept n st st' = (length st \<le> length st' \<and> (\<forall>b < n. st' ! b = st ! b))"

text \<open>
  The outcome \<open>c\<close> on the store agrees with the result \<open>p\<close> on values: the store it
  leaves satisfies \<open>F\<close>, it raises what \<open>p\<close> raises, and what it returns is related
  by \<open>Q\<close> to what \<open>p\<close> returns.
\<close>

definition simulates ::
  "(store \<Rightarrow> bool) \<Rightarrow> py_error + 'p \<Rightarrow> store \<times> (py_error + 'c) \<Rightarrow> ('p \<Rightarrow> store \<Rightarrow> 'c \<Rightarrow> bool) \<Rightarrow> bool" where
  "simulates F p c Q =
     (F (fst c) \<and> (case p of Inl e \<Rightarrow> snd c = Inl e | Inr x \<Rightarrow> (\<exists>y. snd c = Inr y \<and> Q x (fst c) y)))"

section \<open>Example games\<close>

text \<open>
  Concrete inputs, on which the theorems below are evaluated.
\<close>

definition no_games :: game where
  "no_games = \<lparr>home_team = Some ''Reds'', away_team = Some ''Cubs'', home_score = None,
     away_score = None, home_team_batting = None, away_team_batting = None,
     home_team_pitching = None, away_team_pitching = None\<rparr>"

definition walk_only_game :: game where
  "walk_only_game = no_games\<lparr>home_team_batting :=
     Some [\<lparr>player_id = Some ''123'', name = Some ''P'', box = [(''at_bats'', PInt 0), (''walks'', PInt 1)]\<rparr>],
     away_team_pitching :=
     Some [\<lparr>player_id = Some ''9'', name = Some ''Q'', box = [(''hits_allowed'', PInt 2)]\<rparr>]\<rparr>"

definition huge_hits_game :: game where
  "huge_hits_game = no_games\<lparr>home_team_batting :=
     Some [\<lparr>player_id = Some ''123'', name = Some ''P'',
            box = [(''at_bats'', PInt 0), (''hits'', PInt (10 ^ 309)), (''walks'', PInt 1)]\<rparr>]\<rparr>"

definition one_for_three_game :: game where
  "one_for_three_game = no_games\<lparr>home_team_batting :=
     Some [\<lparr>player_id = Some ''123'', name = Some ''P'', box = [(''at_bats'', PInt 3), (''hits'', PInt 1)]\<rparr>]\<rparr>"

definition two_for_four_game :: game where
  "two_for_four_game = no_games\<lparr>home_team := Some ''Mets'', away_team := Some ''Cubs'',
     away_team_batting :=
       Some [\<lparr>player_id = Some ''123'', name = Some ''Pat'', box = [(''at_bats'', PInt 4), (''hits'', PInt 2)]\<rparr>],
     away_team_pitching :=
       Some [\<lparr>player_id = Some ''9'', name = Some ''Q'', box = [(''wins'', PInt 1)]\<rparr>]\<rparr>"

definition blank_id_game :: game where
  "blank_id_game = no_games\<lparr>home_team_batting :=
     Some [\<lparr>player_id = Some [], name = Some ''Bob'', box = [(''at_bats'', PInt 1)]\<rparr>,
           \<lparr>player_id = None, name = Some ''Bob'', box = [(''at_bats'', PInt 2)]\<rparr>,
           \<lparr>player_id = None, name = Some ''Bob'', box = [(''at_bats'', PInt 3)]\<rparr>]\<rparr>"

definition corrupt_game :: game where
  "corrupt_game = no_games\<lparr>home_team_batting :=
     Some [\<lparr>player_id = Some ''7'', name = Some ''R'', box = [(''at_bats'', PStr ''abc'')]\<rparr>]\<rparr>"

definition corrupt_pitching_game :: game where
  "corrupt_pitching_game = no_games\<lparr>away_team_pitching :=
     Some [\<lparr>player_id = Some ''9'', name = Some ''Q'',
            box = [(''earned_runs'', PStr ''x''), (''innings_pitched'', PStr ''six'')]\<rparr>]\<rparr>"

definition renamed_player_games :: "game list" where
  "renamed_player_games =
     [no_games\<lparr>home_team_batting :=
        Some [\<lparr>player_id = Some ''5'', name = Some ''Al'', box = [(''at_bats'', PInt 4)]\<rparr>],
       home_team_pitching :=
        Some [\<lparr>player_id = Some ''5'', name = Some ''Al'', box = [(''wins'', PInt 1)]\<rparr>]\<rparr>,
      no_games\<lparr>home_team := Some ''Mets'', away_team := Some ''Reds'',
       away_team_batting :=
        Some [\<lparr>player_id = Some ''5'', name = Some ''Alan'', box = [(''at_bats'', PInt 3)]\<rparr>],
       home_team_pitching :=
        Some [\<lparr>player_id = Some ''5'', name = None, box = [(''losses'', PInt 1)]\<rparr>]\<rparr>]"

definition third_inning_game :: game where
  "third_inning_game = no_games\<lparr>home_team_pitching :=
     Some [\<lparr>player_id = Some ''9'', name = Some ''Q'',
            box = [(''earned_runs'', PInt 1), (''innings_pitched'', PFloat (Fin 6004799503160661 (- 54)))]\<rparr>]\<rparr>"

definition two_inning_game :: game where
  "two_inning_game = no_games\<lparr>home_team_pitching :=
     Some [\<lparr>player_id = Some ''9'', name = Some ''Q'',
            box = [(''earned_runs'', PInt 0), (''innings_pitched'', PFloat (Fin 1 1))]\<rparr>]\<rparr>"

definition tied_games :: game where
  "tied_games = \<lparr>home_team = Some ''Reds'', away_team = Some ''Cubs'', home_score = Some (PInt 3),
     away_score = Some (PInt 3), home_team_batting = None, away_team_batting = None,
     home_team_pitching = None, away_team_pitching = None\<rparr>"

definition season :: "game list" where
  "season = [tied_games, tied_games\<lparr>home_score := Some (PInt 5)\<rparr>,
             tied_games\<lparr>home_team := Some ''Mets'', away_team := Some ''Reds'', away_score := Some (PStr ''4'')\<rparr>]"

definition unplayed_game :: game where
  "unplayed_game = tied_games\<lparr>home_score := Some PNone, away_score := Some PNone\<rparr>"

definition forfeited_game :: game where
  "forfeited_game = tied_games\<lparr>home_score := Some (PStr ''F'')\<rparr>"

text \<open>
  Two stores: a list of two games at address 0, and the games at addresses 1 and 2.
\<close>

definition two_game_store :: store where
  "two_game_store = [ListObj [1, 2], GameObj walk_only_game, GameObj one_for_three_game]"

definition corrupt_store :: store where
  "corrupt_store = [ListObj [1, 2], GameObj one_for_three_game, GameObj corrupt_game]"

section \<open>The innings parser: what it returns\<close>

lemma split_on_not_Nil: "split_on c s \<noteq> []"
  by (induction s) (auto split: list.splits)

lemma split_on_no_sep: "c \<notin> set s \<Longrightarrow> split_on c s = [s]"
  by (induction s) auto

lemma split_on_one_sep:
  "c \<notin> set w \<Longrightarrow> c \<notin> set f \<Longrightarrow> split_on c (w @ c # f) = [w, f]"
  by (induction w) (auto simp: split_on_no_sep)

lemma length_split_on: "length (split_on c s) = Suc (length (filter (\<lambda>x. x = c) s))"
  by (induction s) (auto simp: split_on_not_Nil split: list.splits)

lemma parse_dotted_many:
  assumes "2 \<le> length (filter (\<lambda>x. x = CHR ''.'') s)"
  shows "parse_dotted s = Inl ValueError"
proof -
  have "3 \<le> length (split_on CHR ''.'' s)"
    using assms by (simp add: length_split_on)
  then obtain a b c r where "split_on CHR ''.'' s = a # b # c # r"
    by (cases "split_on CHR ''.'' s" rule: list.exhaust; simp; metis Suc_le_length_iff numeral_3_eq_3 list.inject)
  then show ?thesis
    by (simp add: parse_dotted_def)
qed

lemma finite_or_overflow_cases:
  "finite_or_overflow x = Inl OverflowError \<or> (\<exists>y. finite_or_overflow x = Inr y)"
  by (cases x) (simp_all add: finite_or_overflow_def)

lemma except_value_type_Inr [simp]: "except_value_type (Inr v) = Inr v"
  by (simp add: except_value_type_def)

lemma except_value_type_Overflow [simp]: "except_value_type (Inl OverflowError) = Inl OverflowError"
  by (simp add: except_value_type_def)

lemma except_value_type_Value [simp]: "except_value_type (Inl ValueError) = Inr (PFloat fzero)"
  by (simp add: except_value_type_def)

lemma add_int_float_cases:
  "add_int_float n x = Inl OverflowError \<or> (\<exists>y. add_int_float n x = Inr (PFloat y))"
  using finite_or_overflow_cases [of "rnd64 n 1"]
  by (auto simp: add_int_float_def float_of_int_def bind_def)

lemma third_cases:
  "bind (int_truediv k 3) (add_int_float n) = Inl OverflowError
   \<or> (\<exists>x. bind (int_truediv k 3) (add_int_float n) = Inr (PFloat x))"
proof (cases "int_truediv k 3")
  case (Inl e)
  then have "e = OverflowError"
    using finite_or_overflow_cases [of "rnd64 k 3"] by (auto simp: int_truediv_def)
  with Inl show ?thesis by (simp add: bind_def)
next
  case (Inr x)
  then show ?thesis using add_int_float_cases [of n x] by (simp add: bind_def)
qed

lemma except_third [simp]:
  "except_value_type (bind (int_truediv k 3) (add_int_float n)) = bind (int_truediv k 3) (add_int_float n)"
  using third_cases [of k n] by auto

lemma int_of_one: "py_int_of_str ''1'' = Some 1"
  by code_simp

lemma int_of_two: "py_int_of_str ''2'' = Some 2"
  by code_simp

lemma is_digit_not_space: "is_digit c \<Longrightarrow> \<not> py_isspace c"
  by (auto simp: is_digit_def py_isspace_def)

lemma dropWhile_head: "xs \<noteq> [] \<Longrightarrow> \<not> P (hd xs) \<Longrightarrow> dropWhile P xs = xs"
  by (cases xs) auto

lemma strip_digits:
  assumes "list_all is_digit s"
  shows "strip s = s"
proof (cases "s = []")
  case True
  then show ?thesis by (simp add: strip_def)
next
  case False
  have "is_digit (hd s)" "is_digit (hd (rev s))"
    using assms False by (simp_all add: list_all_iff hd_rev)
  then have "dropWhile py_isspace s = s" "dropWhile py_isspace (rev s) = rev s"
    using False by (simp_all add: dropWhile_head is_digit_not_space)
  then show ?thesis
    by (simp add: strip_def)
qed

lemma digitpart_acc_digits:
  "list_all is_digit s \<Longrightarrow> \<exists>k. digitpart_acc acc s = Some k"
  by (induction acc s rule: digitpart_acc.induct) auto

lemma int_of_digits:
  assumes "s \<noteq> []" and "list_all is_digit s" and "length s \<le> 4300"
  shows "\<exists>k. py_int_of_str s = Some k"
proof -
  obtain c r where s: "s = c # r"
    using assms(1) by (cases s) auto
  have c: "is_digit c" and r: "list_all is_digit r"
    using assms(2) by (simp_all add: s)
  have sign: "c \<noteq> CHR ''-''" "c \<noteq> CHR ''+''"
    using c by (auto simp: is_digit_def)
  have st: "strip s = c # r"
    using strip_digits [OF assms(2)] by (simp add: s)
  have "length (filter is_digit s) \<le> length s"
    by (rule length_filter_le)
  then have count: "\<not> 4300 < digit_count (c # r)"
    using assms(3) by (simp add: digit_count_def s)
  obtain k where "digitpart_acc (digit_val c) r = Some k"
    using digitpart_acc_digits [OF r] by blast
  then have "signed_digits (c # r) = Some k"
    using c sign by (simp add: signed_digits_def digitpart_def)
  then show ?thesis
    using count by (simp add: py_int_of_str_def st)
qed

lemma ascii_digit_char: "is_digit_char c \<Longrightarrow> (of_char c :: nat) < 128 \<Longrightarrow> is_digit c"
  by (auto simp: is_digit_char_def)

lemma plain_digits:
  assumes "plain_text s" and "isdigit s"
  shows "\<exists>k. py_int_of_str s = Some k"
proof -
  have "\<forall>c \<in> set s. is_digit c"
    using assms ascii_digit_char by (simp add: plain_text_def isdigit_def list_all_iff)
  then have "list_all is_digit s"
    by (simp add: list_all_iff)
  then show ?thesis
    using assms by (intro int_of_digits) (simp_all add: plain_text_def isdigit_def)
qed

lemma plain_text_append: "plain_text (a @ b) \<Longrightarrow> plain_text a \<and> plain_text b"
  by (simp add: plain_text_def)

lemma plain_text_Cons: "plain_text (c # b) \<Longrightarrow> plain_text b"
  by (simp add: plain_text_def)

lemma int_of_empty: "py_int_of_str [] = None"
  by code_simp

lemma whole_part:
  assumes "(whole = [] \<and> n = 0) \<or> py_int_of_str whole = Some n"
  shows "(if whole \<noteq> [] then int_of_str whole else Inr 0) = Inr n"
  using assms by (auto simp: int_of_str_def int_of_empty)

lemma parse_dotted_digits:
  assumes "CHR ''.'' \<notin> set whole" and "isdigit fraction"
    and "(whole = [] \<and> n = 0) \<or> py_int_of_str whole = Some n"
    and "py_int_of_str fraction = Some k"
  shows "parse_dotted (whole @ ''.'' @ fraction) = bind (int_truediv k 3) (add_int_float n)"
proof -
  have nodot: "CHR ''.'' \<notin> set fraction"
    using assms(2) by (auto simp: isdigit_def is_digit_char_def is_digit_def list_all_iff)
  have sp: "split_on CHR ''.'' (whole @ CHR ''.'' # fraction) = [whole, fraction]"
    by (rule split_on_one_sep [OF assms(1) nodot])
  have w: "(if whole \<noteq> [] then int_of_str whole else Inr 0) = Inr n"
    by (rule whole_part [OF assms(3)])
  have f: "int_of_str fraction = Inr k"
    using assms(4) by (simp add: int_of_str_def)
  show ?thesis
    using assms(2,4) by (auto simp: parse_dotted_def sp w f bind_def int_of_one int_of_two)
qed

lemma parse_dotted_nondigits:
  assumes "CHR ''.'' \<notin> set whole" and "CHR ''.'' \<notin> set fraction" and "\<not> isdigit fraction"
    and "(whole = [] \<and> n = 0) \<or> py_int_of_str whole = Some n"
  shows "parse_dotted (whole @ ''.'' @ fraction) = Inr (PInt n)"
proof -
  have sp: "split_on CHR ''.'' (whole @ CHR ''.'' # fraction) = [whole, fraction]"
    by (rule split_on_one_sep [OF assms(1,2)])
  have w: "(if whole \<noteq> [] then int_of_str whole else Inr 0) = Inr n"
    by (rule whole_part [OF assms(4)])
  have "isdigit ''1''" "isdigit ''2''"
    by code_simp+
  then have "fraction \<noteq> ''1''" "fraction \<noteq> ''2''"
    using assms(3) by auto
  then show ?thesis
    using assms(3) by (simp add: parse_dotted_def sp w bind_def)
qed

lemma parse_dotted_bad_whole:
  assumes "CHR ''.'' \<notin> set whole" and "CHR ''.'' \<notin> set fraction"
    and "whole \<noteq> []" and "py_int_of_str whole = None"
  shows "parse_dotted (whole @ ''.'' @ fraction) = Inl ValueError"
proof -
  have sp: "split_on CHR ''.'' (whole @ CHR ''.'' # fraction) = [whole, fraction]"
    by (rule split_on_one_sep [OF assms(1,2)])
  show ?thesis
    using assms(3,4) by (simp add: parse_dotted_def sp bind_def int_of_str_def)
qed

lemma parse_dotted_cases:
  "parse_dotted s = Inl ValueError \<or> parse_dotted s = Inl OverflowError \<or> (\<exists>v. parse_dotted s = Inr v)"
proof (cases "\<exists>whole fraction. split_on CHR ''.'' s = [whole, fraction]")
  case False
  then have "parse_dotted s = Inl ValueError"
    by (auto simp: parse_dotted_def split: list.splits)
  then show ?thesis by simp
next
  case True
  then obtain whole fraction where sp: "split_on CHR ''.'' s = [whole, fraction]"
    by blast
  show ?thesis
  proof (cases "if whole \<noteq> [] then int_of_str whole else Inr 0")
    case (Inl e)
    then have "e = ValueError"
      by (auto simp: int_of_str_def split: if_splits option.splits)
    then show ?thesis
      using Inl by (simp add: parse_dotted_def sp bind_def)
  next
    case (Inr n)
    have third: "bind (int_truediv k 3) (add_int_float n) = Inl OverflowError
        \<or> (\<exists>v. bind (int_truediv k 3) (add_int_float n) = Inr v)" for k
      using third_cases [of k n] by auto
    have frac: "bind (int_of_str fraction) (\<lambda>f. bind (int_truediv f 3) (add_int_float n)) = Inl ValueError
        \<or> bind (int_of_str fraction) (\<lambda>f. bind (int_truediv f 3) (add_int_float n)) = Inl OverflowError
        \<or> (\<exists>v. bind (int_of_str fraction) (\<lambda>f. bind (int_truediv f 3) (add_int_float n)) = Inr v)"
      using third by (cases "py_int_of_str fraction") (auto simp: int_of_str_def bind_def)
    show ?thesis
      using third [of 1] third [of 2] frac by (simp add: parse_dotted_def sp Inr bind_def)
  qed
qed

lemma parse_innings_cases:
  "parse_innings r = Inl OverflowError \<or> (\<exists>v. parse_innings r = Inr v)"
proof (cases r)
  case None
  then show ?thesis by (simp add: parse_innings_def)
next
  case (Some s)
  have dotted: "except_value_type (parse_dotted s) = Inl OverflowError
      \<or> (\<exists>v. except_value_type (parse_dotted s) = Inr v)"
    using parse_dotted_cases [of s] by auto
  have plain: "\<exists>v. except_value_type (bind (py_float (PStr s)) (\<lambda>x. Inr (PFloat x))) = Inr v"
    by (cases "py_float_of_str s") (simp_all add: bind_def)
  show ?thesis
    using dotted plain by (simp add: parse_innings_def Some)
qed

text \<open>
  Claim C4, as the code has it, on ASCII text of at most 4300 characters. \<^verbatim>\<open>"6.1"\<close> parses
  to \<^verbatim>\<open>6 + 1/3\<close> (the float \<open>6.333333333333333\<close>), \<^verbatim>\<open>"6.2"\<close> to \<^verbatim>\<open>6 + 2/3\<close>, \<^verbatim>\<open>"6"\<close>
  and \<^verbatim>\<open>"6.0"\<close> to \<open>6.0\<close>. A missing or empty input parses to \<open>0.0\<close>. A string without a
  dot parses to \<^verbatim>\<open>float(s)\<close>, and to \<open>0.0\<close> when \<^verbatim>\<open>float\<close> rejects it. A string with two
  dots or more parses to \<open>0.0\<close>, and so does a string with one dot whose non-empty whole
  part \<^verbatim>\<open>int\<close> rejects. With one dot and a whole part \<open>n\<close> (an integer literal, or
  nothing, which counts as \<open>0\<close>): a fraction made of digits is an integer \<open>k\<close>, and the
  result is \<open>n + k / 3\<close> computed in floats, where \<^verbatim>\<open>OverflowError\<close> is raised, and
  not caught, when \<open>k / 3\<close> or \<open>n\<close> is too large for a float; any other fraction is
  dropped, and the result is the integer \<open>n\<close>. No exception other than
  \<^verbatim>\<open>OverflowError\<close> leaves the parser.
\<close>

theorem parse_innings_contract:
  "parse_innings (Some ''6.1'') = bind (int_truediv 1 3) (add_int_float 6)
   \<and> parse_innings (Some ''6.1'') = Inr (PFloat (Fin 7130699410003285 (- 50)))
   \<and> parse_innings (Some ''6.2'') = bind (int_truediv 2 3) (add_int_float 6)
   \<and> parse_innings (Some ''6.2'') = Inr (PFloat (Fin 7505999378950827 (- 50)))
   \<and> parse_innings (Some ''6'') = Inr (PFloat (Fin 3 1))
   \<and> parse_innings (Some ''6.0'') = Inr (PFloat (Fin 3 1))
   \<and> parse_innings None = Inr (PFloat fzero)
   \<and> parse_innings (Some []) = Inr (PFloat fzero)
   \<and> (\<forall>s. plain_text s \<and> s \<noteq> [] \<and> CHR ''.'' \<notin> set s \<and> py_float_of_str s = None
        \<longrightarrow> parse_innings (Some s) = Inr (PFloat fzero))
   \<and> (\<forall>s x. plain_text s \<and> s \<noteq> [] \<and> CHR ''.'' \<notin> set s \<and> py_float_of_str s = Some x
        \<longrightarrow> parse_innings (Some s) = Inr (PFloat x))
   \<and> (\<forall>s. plain_text s \<and> 2 \<le> length (filter (\<lambda>c. c = CHR ''.'') s)
        \<longrightarrow> parse_innings (Some s) = Inr (PFloat fzero))
   \<and> (\<forall>whole fraction. plain_text (whole @ ''.'' @ fraction)
        \<and> CHR ''.'' \<notin> set whole \<and> CHR ''.'' \<notin> set fraction
        \<and> whole \<noteq> [] \<and> py_int_of_str whole = None
        \<longrightarrow> parse_innings (Some (whole @ ''.'' @ fraction)) = Inr (PFloat fzero))
   \<and> (\<forall>whole fraction n. plain_text (whole @ ''.'' @ fraction)
        \<and> CHR ''.'' \<notin> set whole \<and> isdigit fraction
        \<and> ((whole = [] \<and> n = 0) \<or> py_int_of_str whole = Some n)
        \<longrightarrow> (\<exists>k. py_int_of_str fraction = Some k
              \<and> parse_innings (Some (whole @ ''.'' @ fraction)) = bind (int_truediv k 3) (add_int_float n)
              \<and> (bind (int_truediv k 3) (add_int_float n) = Inl OverflowError
                 \<or> (\<exists>x. bind (int_truediv k 3) (add_int_float n) = Inr (PFloat x)))))
   \<and> (\<forall>whole fraction n. plain_text (whole @ ''.'' @ fraction)
        \<and> CHR ''.'' \<notin> set whole \<and> CHR ''.'' \<notin> set fraction
        \<and> \<not> isdigit fraction \<and> ((whole = [] \<and> n = 0) \<or> py_int_of_str whole = Some n)
        \<longrightarrow> parse_innings (Some (whole @ ''.'' @ fraction)) = Inr (PInt n))
   \<and> (\<forall>s. plain_text s
        \<longrightarrow> parse_innings (Some s) = Inl OverflowError \<or> (\<exists>v. parse_innings (Some s) = Inr v))"
proof -
  have e1: "parse_innings (Some ''6.1'') = bind (int_truediv 1 3) (add_int_float 6)"
    by code_simp
  have e2: "parse_innings (Some ''6.1'') = Inr (PFloat (Fin 7130699410003285 (- 50)))"
    by code_simp
  have e3: "parse_innings (Some ''6.2'') = bind (int_truediv 2 3) (add_int_float 6)"
    by code_simp
  have e4: "parse_innings (Some ''6.2'') = Inr (PFloat (Fin 7505999378950827 (- 50)))"
    by code_simp
  have e5: "parse_innings (Some ''6'') = Inr (PFloat (Fin 3 1))"
    by code_simp
  have e6: "parse_innings (Some ''6.0'') = Inr (PFloat (Fin 3 1))"
    by code_simp
  have e7: "parse_innings None = Inr (PFloat fzero)"
    by (simp add: parse_innings_def)
  have e8: "parse_innings (Some []) = Inr (PFloat fzero)"
    by (simp add: parse_innings_def)
  have c1: "\<forall>s. plain_text s \<and> s \<noteq> [] \<and> CHR ''.'' \<notin> set s \<and> py_float_of_str s = None
        \<longrightarrow> parse_innings (Some s) = Inr (PFloat fzero)"
    by (simp add: parse_innings_def bind_def)
  have c1b: "\<forall>s x. plain_text s \<and> s \<noteq> [] \<and> CHR ''.'' \<notin> set s \<and> py_float_of_str s = Some x
        \<longrightarrow> parse_innings (Some s) = Inr (PFloat x)"
    by (simp add: parse_innings_def bind_def)
  have c2: "\<forall>s. plain_text s \<and> 2 \<le> length (filter (\<lambda>c. c = CHR ''.'') s)
        \<longrightarrow> parse_innings (Some s) = Inr (PFloat fzero)"
  proof (intro allI impI, elim conjE)
    fix s :: string
    assume many: "2 \<le> length (filter (\<lambda>c. c = CHR ''.'') s)"
    then have "filter (\<lambda>c. c = CHR ''.'') s \<noteq> []"
      by auto
    then have dot: "CHR ''.'' \<in> set s"
      by (auto simp: filter_empty_conv)
    then have "s \<noteq> []" by auto
    with dot show "parse_innings (Some s) = Inr (PFloat fzero)"
      using parse_dotted_many [OF many] by (simp add: parse_innings_def)
  qed
  have c3: "\<forall>whole fraction. plain_text (whole @ ''.'' @ fraction)
        \<and> CHR ''.'' \<notin> set whole \<and> CHR ''.'' \<notin> set fraction
        \<and> whole \<noteq> [] \<and> py_int_of_str whole = None
        \<longrightarrow> parse_innings (Some (whole @ ''.'' @ fraction)) = Inr (PFloat fzero)"
    using parse_dotted_bad_whole by (simp add: parse_innings_def)
  have c4: "\<forall>whole fraction n. plain_text (whole @ ''.'' @ fraction)
        \<and> CHR ''.'' \<notin> set whole \<and> isdigit fraction
        \<and> ((whole = [] \<and> n = 0) \<or> py_int_of_str whole = Some n)
        \<longrightarrow> (\<exists>k. py_int_of_str fraction = Some k
              \<and> parse_innings (Some (whole @ ''.'' @ fraction)) = bind (int_truediv k 3) (add_int_float n)
              \<and> (bind (int_truediv k 3) (add_int_float n) = Inl OverflowError
                 \<or> (\<exists>x. bind (int_truediv k 3) (add_int_float n) = Inr (PFloat x))))"
  proof (intro allI impI, elim conjE)
    fix whole fraction :: string and n :: int
    assume plain: "plain_text (whole @ ''.'' @ fraction)"
      and h: "CHR ''.'' \<notin> set whole" "isdigit fraction"
      "(whole = [] \<and> n = 0) \<or> py_int_of_str whole = Some n"
    have "plain_text fraction"
      using plain_text_append [OF plain] plain_text_Cons by auto
    then obtain k where k: "py_int_of_str fraction = Some k"
      using plain_digits h(2) by blast
    have "parse_innings (Some (whole @ ''.'' @ fraction)) = bind (int_truediv k 3) (add_int_float n)"
      using parse_dotted_digits [OF h k] by (simp add: parse_innings_def)
    then show "\<exists>k. py_int_of_str fraction = Some k
              \<and> parse_innings (Some (whole @ ''.'' @ fraction)) = bind (int_truediv k 3) (add_int_float n)
              \<and> (bind (int_truediv k 3) (add_int_float n) = Inl OverflowError
                 \<or> (\<exists>x. bind (int_truediv k 3) (add_int_float n) = Inr (PFloat x)))"
      using k third_cases [of k n] by blast
  qed
  have c5: "\<forall>whole fraction n. plain_text (whole @ ''.'' @ fraction)
        \<and> CHR ''.'' \<notin> set whole \<and> CHR ''.'' \<notin> set fraction
        \<and> \<not> isdigit fraction \<and> ((whole = [] \<and> n = 0) \<or> py_int_of_str whole = Some n)
        \<longrightarrow> parse_innings (Some (whole @ ''.'' @ fraction)) = Inr (PInt n)"
  proof (intro allI impI, elim conjE)
    fix whole fraction :: string and n :: int
    assume "CHR ''.'' \<notin> set whole" "CHR ''.'' \<notin> set fraction" "\<not> isdigit fraction"
      "(whole = [] \<and> n = 0) \<or> py_int_of_str whole = Some n"
    then show "parse_innings (Some (whole @ ''.'' @ fraction)) = Inr (PInt n)"
      using parse_dotted_nondigits [of whole fraction n] by (simp add: parse_innings_def)
  qed
  have c6: "\<forall>s. plain_text s
        \<longrightarrow> parse_innings (Some s) = Inl OverflowError \<or> (\<exists>v. parse_innings (Some s) = Inr v)"
    using parse_innings_cases by blast
  show ?thesis
    by (intro conjI; fact)
qed

theorem parse_innings_contract_witness:
  "parse_innings (Some ''abc'') = Inr (PFloat fzero)
   \<and> parse_innings (Some ''7'') = Inr (PFloat (Fin 7 0))
   \<and> parse_innings (Some ''1.2.3'') = Inr (PFloat fzero)
   \<and> parse_innings (Some ''x.5'') = Inr (PFloat fzero)
   \<and> parse_innings (Some ''6.5'') = bind (int_truediv 5 3) (add_int_float 6)
   \<and> parse_innings (Some ''6.5'') = Inr (PFloat (Fin 8631899285793451 (- 50)))
   \<and> parse_innings (Some ''6.x'') = Inr (PInt 6)
   \<and> parse_innings (Some (''1'' @ replicate 309 CHR ''0'' @ ''.1'')) = Inl OverflowError"
proof -
  note c = parse_innings_contract
  have h1: "plain_text ''abc'' \<and> ''abc'' \<noteq> [] \<and> CHR ''.'' \<notin> set ''abc'' \<and> py_float_of_str ''abc'' = None"
    by code_simp
  have h1b: "plain_text ''7'' \<and> ''7'' \<noteq> [] \<and> CHR ''.'' \<notin> set ''7'' \<and> py_float_of_str ''7'' = Some (Fin 7 0)"
    by code_simp
  have h2: "plain_text ''1.2.3'' \<and> 2 \<le> length (filter (\<lambda>c. c = CHR ''.'') ''1.2.3'')"
    by code_simp
  have h3: "plain_text (''x'' @ ''.'' @ ''5'') \<and> CHR ''.'' \<notin> set ''x'' \<and> CHR ''.'' \<notin> set ''5''
        \<and> ''x'' \<noteq> [] \<and> py_int_of_str ''x'' = None"
    by code_simp
  have h4: "plain_text (''6'' @ ''.'' @ ''5'') \<and> CHR ''.'' \<notin> set ''6'' \<and> isdigit ''5''
        \<and> ((''6'' = [] \<and> (6::int) = 0) \<or> py_int_of_str ''6'' = Some 6)"
    by code_simp
  have five: "py_int_of_str ''5'' = Some 5"
    by code_simp
  have sum5: "bind (int_truediv 5 3) (add_int_float 6) = Inr (PFloat (Fin 8631899285793451 (- 50)))"
    by code_simp
  have h5: "plain_text (''6'' @ ''.'' @ ''x'') \<and> CHR ''.'' \<notin> set ''6'' \<and> CHR ''.'' \<notin> set ''x''
        \<and> \<not> isdigit ''x'' \<and> ((''6'' = [] \<and> (6::int) = 0) \<or> py_int_of_str ''6'' = Some 6)"
    by code_simp
  have r1: "parse_innings (Some ''abc'') = Inr (PFloat fzero)"
    using c h1 by blast
  have r1b: "parse_innings (Some ''7'') = Inr (PFloat (Fin 7 0))"
    using c h1b by blast
  have r2: "parse_innings (Some ''1.2.3'') = Inr (PFloat fzero)"
    using c h2 by blast
  have r3: "parse_innings (Some (''x'' @ ''.'' @ ''5'')) = Inr (PFloat fzero)"
    using c h3 by blast
  have "\<exists>k. py_int_of_str ''5'' = Some k
          \<and> parse_innings (Some (''6'' @ ''.'' @ ''5'')) = bind (int_truediv k 3) (add_int_float 6)"
    using c h4 by blast
  then have r4: "parse_innings (Some (''6'' @ ''.'' @ ''5'')) = bind (int_truediv 5 3) (add_int_float 6)"
    using five by auto
  have r5: "parse_innings (Some (''6'' @ ''.'' @ ''x'')) = Inr (PInt 6)"
    using c h5 by blast
  have r6: "parse_innings (Some (''1'' @ replicate 309 CHR ''0'' @ ''.1'')) = Inl OverflowError"
    by code_simp
  show ?thesis
    using r1 r1b r2 r3 r4 r5 r6 sum5 by simp
qed

text \<open>
  Claim C4 as stated fails: \<^verbatim>\<open>"6.x"\<close> is not numeric (both \<^verbatim>\<open>int\<close> and \<^verbatim>\<open>float\<close> reject
  it), and it parses to the integer 6, not to \<open>0.0\<close>.
\<close>

theorem parse_innings_counterexample:
  "py_int (PStr ''6.x'') = Inl ValueError \<and> py_float (PStr ''6.x'') = Inl ValueError
   \<and> parse_innings (Some ''6.x'') = Inr (PInt 6)
   \<and> parse_innings (Some ''6.x'') \<noteq> Inr (PFloat fzero)"
  by code_simp

section \<open>The accumulation loop\<close>

lemma bind_Inr [simp]: "bind (Inr x) f = f x"
  by (simp add: bind_def)

lemma bind_Inl [simp]: "bind (Inl e) f = Inl e"
  by (simp add: bind_def)

lemma bind_eq_Inr: "bind r f = Inr y \<longleftrightarrow> (\<exists>x. r = Inr x \<and> f x = Inr y)"
  by (cases r) auto

lemma bind_assoc: "bind (bind r f) g = bind r (\<lambda>x. bind (f x) g)"
  by (cases r) auto

lemma process_lines_tagged:
  "process_lines add dflt t ls d = process_tagged add dflt (map (Pair t) ls) d"
proof (induction ls arbitrary: d)
  case Nil
  show ?case by simp
next
  case (Cons l ls)
  show ?case
    by (cases "process_line add dflt t l d") (simp_all add: Cons.IH)
qed

lemma process_lines_tagged_fun:
  "process_lines add dflt t ls = process_tagged add dflt (map (Pair t) ls)"
  by (rule ext) (rule process_lines_tagged)

lemma process_tagged_append:
  "process_tagged add dflt (xs @ ys) d = bind (process_tagged add dflt xs d) (process_tagged add dflt ys)"
proof (induction xs arbitrary: d)
  case Nil
  show ?case by simp
next
  case (Cons x xs)
  show ?case
    by (cases "process_line add dflt (fst x) (snd x) d") (simp_all add: Cons.IH)
qed

lemma process_game_batting_tagged:
  "process_game_batting_stats g d = process_tagged add_batting default_batting (game_batting_lines g) d"
  by (simp add: process_game_batting_stats_def game_batting_lines_def process_tagged_append
      process_lines_tagged_fun)

lemma process_game_pitching_tagged:
  "process_game_pitching_stats g d = process_tagged add_pitching default_pitching (game_pitching_lines g) d"
  by (simp add: process_game_pitching_stats_def game_pitching_lines_def process_tagged_append
      process_lines_tagged_fun)

lemma process_games_Inr:
  "process_games gs b p = Inr (b', p') \<longleftrightarrow>
     process_tagged add_batting default_batting (batting_lines gs) b = Inr b'
     \<and> process_tagged add_pitching default_pitching (pitching_lines gs) p = Inr p'"
proof (induction gs arbitrary: b p)
  case Nil
  show ?case by (auto simp: batting_lines_def pitching_lines_def)
next
  case (Cons g gs)
  have bl: "batting_lines (g # gs) = game_batting_lines g @ batting_lines gs"
    by (simp add: batting_lines_def)
  have pl: "pitching_lines (g # gs) = game_pitching_lines g @ pitching_lines gs"
    by (simp add: pitching_lines_def)
  show ?case
    by (simp add: bl pl process_tagged_append bind_eq_Inr Cons.IH
        process_game_batting_tagged process_game_pitching_tagged) blast
qed

lemma process_line_touched:
  "process_line add dflt t l d =
     bind (add l (touched t l (get_field (map_of d (player_key l)) dflt)))
       (\<lambda>s. Inr (AList.update (player_key l) s d))"
  by (simp add: process_line_def touched_def)

lemma process_line_Inr:
  "process_line add dflt t l d = Inr d' \<longleftrightarrow>
     (\<exists>s'. add l (touched t l (get_field (map_of d (player_key l)) dflt)) = Inr s'
           \<and> d' = AList.update (player_key l) s' d)"
  by (auto simp: process_line_touched bind_eq_Inr)

lemma process_tagged_Cons_Inr:
  "process_tagged add dflt (e # rest) d = Inr d' \<longleftrightarrow>
     (\<exists>s'. add (snd e) (touched (fst e) (snd e) (get_field (map_of d (player_key (snd e))) dflt)) = Inr s'
           \<and> process_tagged add dflt rest (AList.update (player_key (snd e)) s' d) = Inr d')"
  by (auto simp: bind_eq_Inr process_line_Inr)

lemma get_field_update_same [simp]:
  "get_field (map_of (AList.update k v d) k) dflt = v"
  by (simp add: get_field_def update_conv')

lemma get_field_update_other [simp]:
  "k' \<noteq> k \<Longrightarrow> get_field (map_of (AList.update k v d) k') dflt = get_field (map_of d k') dflt"
  by (simp add: get_field_def update_conv')

lemma lines_of_key_Cons:
  "lines_of_key k (e # rest) = (if player_key (snd e) = k then e # lines_of_key k rest else lines_of_key k rest)"
  by (simp add: lines_of_key_def)

lemma lines_of_key_Nil [simp]: "lines_of_key k [] = []"
  by (simp add: lines_of_key_def)

lemma process_tagged_keys:
  "process_tagged add dflt tls d = Inr d' \<Longrightarrow>
     fst ` set d' = fst ` set d \<union> (\<lambda>e. player_key (snd e)) ` set tls"
proof (induction tls arbitrary: d)
  case Nil
  then show ?case by simp
next
  case (Cons e rest)
  from Cons.prems [unfolded process_tagged_Cons_Inr] obtain s' where
    rest: "process_tagged add dflt rest (AList.update (player_key (snd e)) s' d) = Inr d'"
    by blast
  show ?case
    using Cons.IH [OF rest] by (auto simp: dom_update)
qed

lemma process_tagged_distinct:
  "process_tagged add dflt tls d = Inr d' \<Longrightarrow> distinct (map fst d) \<Longrightarrow> distinct (map fst d')"
proof (induction tls arbitrary: d)
  case Nil
  then show ?case by simp
next
  case (Cons e rest)
  from Cons.prems(1) [unfolded process_tagged_Cons_Inr] obtain s' where
    rest: "process_tagged add dflt rest (AList.update (player_key (snd e)) s' d) = Inr d'"
    by blast
  show ?case
    using Cons.IH [OF rest] Cons.prems(2) by (simp add: distinct_update)
qed

lemma process_tagged_other:
  "process_tagged add dflt tls d = Inr d' \<Longrightarrow> lines_of_key k tls = [] \<Longrightarrow> map_of d' k = map_of d k"
proof (induction tls arbitrary: d)
  case Nil
  then show ?case by simp
next
  case (Cons e rest)
  from Cons.prems(1) [unfolded process_tagged_Cons_Inr] obtain s' where
    rest: "process_tagged add dflt rest (AList.update (player_key (snd e)) s' d) = Inr d'"
    by blast
  from Cons.prems(2) have ne: "player_key (snd e) \<noteq> k" and nil: "lines_of_key k rest = []"
    by (auto simp: lines_of_key_Cons split: if_splits)
  show ?case
    using Cons.IH [OF rest nil] ne by (simp add: update_conv')
qed

lemma process_tagged_sum:
  fixes F :: "'a stat_base_scheme \<Rightarrow> int"
  assumes step: "\<And>t l s s'. add l (touched t l s) = Inr s' \<Longrightarrow> F s' = F s + D l"
    and run: "process_tagged add dflt tls d = Inr d'"
  shows "F (get_field (map_of d' k) dflt) =
         F (get_field (map_of d k) dflt) + sum_list (map (\<lambda>e. D (snd e)) (lines_of_key k tls))"
  using run
proof (induction tls arbitrary: d)
  case Nil
  then show ?case by simp
next
  case (Cons e rest)
  from Cons.prems [unfolded process_tagged_Cons_Inr] obtain s' where
    add: "add (snd e) (touched (fst e) (snd e) (get_field (map_of d (player_key (snd e))) dflt)) = Inr s'"
    and rest: "process_tagged add dflt rest (AList.update (player_key (snd e)) s' d) = Inr d'"
    by blast
  show ?case
  proof (cases "player_key (snd e) = k")
    case True
    then show ?thesis
      using Cons.IH [OF rest] step [OF add] by (simp add: lines_of_key_Cons)
  next
    case False
    then show ?thesis
      using Cons.IH [OF rest] by (simp add: lines_of_key_Cons)
  qed
qed

lemma process_tagged_last:
  assumes keep: "\<And>l s s'. add l s = Inr s' \<Longrightarrow> player_name s' = player_name s \<and> team s' = team s"
    and run: "process_tagged add dflt tls d = Inr d'"
    and some: "lines_of_key k tls \<noteq> []"
  shows "\<exists>s'. map_of d' k = Some s'
           \<and> player_name s' = get_field (name (snd (last (lines_of_key k tls)))) ''Unknown''
           \<and> team s' = fst (last (lines_of_key k tls))"
  using run some
proof (induction tls arbitrary: d)
  case Nil
  then show ?case by simp
next
  case (Cons e rest)
  from Cons.prems(1) [unfolded process_tagged_Cons_Inr] obtain s' where
    add: "add (snd e) (touched (fst e) (snd e) (get_field (map_of d (player_key (snd e))) dflt)) = Inr s'"
    and rest: "process_tagged add dflt rest (AList.update (player_key (snd e)) s' d) = Inr d'"
    by blast
  show ?case
  proof (cases "lines_of_key k rest = []")
    case True
    with Cons.prems(2) have key: "player_key (snd e) = k"
      by (auto simp: lines_of_key_Cons split: if_splits)
    have "map_of d' k = Some s'"
      using process_tagged_other [OF rest True] key by (simp add: update_conv')
    moreover have "player_name s' = get_field (name (snd e)) ''Unknown''" "team s' = fst e"
      using keep [OF add] by (simp_all add: touched_def)
    ultimately show ?thesis
      using True key by (simp add: lines_of_key_Cons)
  next
    case False
    then show ?thesis
      using Cons.IH [OF rest False] by (simp add: lines_of_key_Cons)
  qed
qed

lemma set_update_subset: "set (AList.update k v d) \<subseteq> insert (k, v) (set d)"
  by (induction d) auto

lemma process_tagged_invariant:
  assumes step: "\<And>t l s s'. P s \<Longrightarrow> add l (touched t l s) = Inr s' \<Longrightarrow> P s'"
    and dflt: "P dflt"
    and run: "process_tagged add dflt tls d = Inr d'"
    and init: "\<forall>s \<in> snd ` set d. P s"
  shows "\<forall>s \<in> snd ` set d'. P s"
  using run init
proof (induction tls arbitrary: d)
  case Nil
  then show ?case by simp
next
  case (Cons e rest)
  from Cons.prems(1) [unfolded process_tagged_Cons_Inr] obtain s' where
    add: "add (snd e) (touched (fst e) (snd e) (get_field (map_of d (player_key (snd e))) dflt)) = Inr s'"
    and rest: "process_tagged add dflt rest (AList.update (player_key (snd e)) s' d) = Inr d'"
    by blast
  have "P (get_field (map_of d (player_key (snd e))) dflt)"
    using Cons.prems(2) dflt by (auto simp: get_field_def split: option.splits dest!: map_of_SomeD)
  then have "P s'"
    using step add by blast
  then have "\<forall>s \<in> snd ` set (AList.update (player_key (snd e)) s' d). P s"
    using Cons.prems(2) set_update_subset [of "player_key (snd e)" s' d] by fastforce
  then show ?case
    by (rule Cons.IH [OF rest])
qed

lemma process_tagged_success:
  assumes ok: "\<And>l s. (\<exists>s'. add l s = Inr s') \<longleftrightarrow> ok l"
  shows "(\<exists>d'. process_tagged add dflt tls d = Inr d') \<longleftrightarrow> (\<forall>e \<in> set tls. ok (snd e))"
proof (induction tls arbitrary: d)
  case Nil
  show ?case by simp
next
  case (Cons e rest)
  have "(\<exists>d'. process_tagged add dflt (e # rest) d = Inr d') \<longleftrightarrow>
        (\<exists>s'. add (snd e) (touched (fst e) (snd e) (get_field (map_of d (player_key (snd e))) dflt)) = Inr s'
           \<and> (\<exists>d'. process_tagged add dflt rest (AList.update (player_key (snd e)) s' d) = Inr d'))"
    unfolding process_tagged_Cons_Inr by blast
  also have "\<dots> \<longleftrightarrow> ok (snd e) \<and> (\<forall>x \<in> set rest. ok (snd x))"
    unfolding Cons.IH using ok by blast
  finally show ?case by simp
qed

section \<open>One line, and the derived statistics of one record\<close>

lemma int_field_value: "int_field l k = Inr n \<Longrightarrow> field_value l k = n"
  by (simp add: field_value_def)

lemma add_batting_Inr:
  assumes "add_batting l s = Inr s'"
  shows "s' = s\<lparr>at_bats := at_bats s + field_value l ''at_bats'',
                 hits := hits s + field_value l ''hits'',
                 runs := runs s + field_value l ''runs'',
                 rbis := rbis s + field_value l ''rbis'',
                 doubles := doubles s + field_value l ''doubles'',
                 triples := triples s + field_value l ''triples'',
                 home_runs := home_runs s + field_value l ''home_runs'',
                 walks := walks s + field_value l ''walks'',
                 strikeouts := strikeouts s + field_value l ''strikeouts''\<rparr>"
  using assms unfolding add_batting_def bind_eq_Inr
  by (auto simp: int_field_value)

lemma add_batting_ok: "(\<exists>s'. add_batting l s = Inr s') \<longleftrightarrow> batting_ok l"
  unfolding add_batting_def bind_eq_Inr batting_ok_def batting_keys_def int_ok_def
  by auto

lemma add_pitching_Inr:
  assumes "add_pitching l s = Inr s'"
  shows "s' = s\<lparr>wins := wins s + field_value l ''wins'',
                 losses := losses s + field_value l ''losses'',
                 saves := saves s + field_value l ''saves'',
                 innings_pitched := fadd (innings_pitched s) (float_value l ''innings_pitched''),
                 hits_allowed := hits_allowed s + field_value l ''hits_allowed'',
                 runs_allowed := runs_allowed s + field_value l ''runs_allowed'',
                 earned_runs := earned_runs s + field_value l ''earned_runs'',
                 walks_allowed := walks_allowed s + field_value l ''walks_allowed'',
                 pitching_strikeouts := pitching_strikeouts s + field_value l ''strikeouts'',
                 home_runs_allowed := home_runs_allowed s + field_value l ''home_runs_allowed''\<rparr>"
  using assms unfolding add_pitching_def bind_eq_Inr
  by (auto simp: int_field_value float_value_def)

lemma add_pitching_ok: "(\<exists>s'. add_pitching l s = Inr s') \<longleftrightarrow> pitching_ok l"
  unfolding add_pitching_def bind_eq_Inr pitching_ok_def pitching_keys_def int_ok_def
  by auto

lemma set_batting_average_Inr:
  "set_batting_average s = Inr r \<longleftrightarrow>
     (\<exists>x. r = s\<lparr>batting_average := x\<rparr>
          \<and> (if 0 < at_bats s then rounded_ratio (hits s) (at_bats s) = Inr x else x = batting_average s))"
  by (auto simp: set_batting_average_def rounded_ratio_def bind_eq_Inr)

lemma set_on_base_percentage_Inr:
  "set_on_base_percentage s = Inr r \<longleftrightarrow>
     (\<exists>x. r = s\<lparr>on_base_percentage := x\<rparr>
          \<and> (if 0 < at_bats s + walks s then rounded_ratio (hits s + walks s) (at_bats s + walks s) = Inr x
              else x = on_base_percentage s))"
  by (auto simp: set_on_base_percentage_def rounded_ratio_def bind_eq_Inr)

lemma set_slugging_percentage_Inr:
  "set_slugging_percentage s = Inr r \<longleftrightarrow>
     (\<exists>x. r = s\<lparr>slugging_percentage := x\<rparr>
          \<and> (if 0 < at_bats s then rounded_ratio (total_bases s) (at_bats s) = Inr x
              else x = slugging_percentage s))"
  by (auto simp: set_slugging_percentage_def rounded_ratio_def bind_eq_Inr)

lemma set_ops_Inr:
  "set_ops s = Inr r \<longleftrightarrow>
     (\<exists>x. r = s\<lparr>ops := x\<rparr> \<and> py_round (fadd (on_base_percentage s) (slugging_percentage s)) 3 = Inr x)"
  by (auto simp: set_ops_def bind_eq_Inr)

lemma total_bases_update [simp]:
  "total_bases (s\<lparr>batting_average := x\<rparr>) = total_bases s"
  "total_bases (s\<lparr>on_base_percentage := y\<rparr>) = total_bases s"
  "total_bases (s\<lparr>player_name := n\<rparr>) = total_bases s"
  "total_bases (s\<lparr>team := t\<rparr>) = total_bases s"
  by (simp_all add: total_bases_def)

lemma batting_averages_Inr:
  assumes "batting_averages s = Inr r"
  shows "\<exists>ba obp slg opv. r = s\<lparr>batting_average := ba, on_base_percentage := obp,
                             slugging_percentage := slg, ops := opv\<rparr>
        \<and> (if 0 < at_bats s then rounded_ratio (hits s) (at_bats s) = Inr ba else ba = batting_average s)
        \<and> (if 0 < at_bats s + walks s then rounded_ratio (hits s + walks s) (at_bats s + walks s) = Inr obp
            else obp = on_base_percentage s)
        \<and> (if 0 < at_bats s then rounded_ratio (total_bases s) (at_bats s) = Inr slg
            else slg = slugging_percentage s)
        \<and> py_round (fadd obp slg) 3 = Inr opv"
proof -
  from assms obtain s1 s2 s3 where
    1: "set_batting_average s = Inr s1" and 2: "set_on_base_percentage s1 = Inr s2"
    and 3: "set_slugging_percentage s2 = Inr s3" and 4: "set_ops s3 = Inr r"
    unfolding batting_averages_def bind_eq_Inr by blast
  from 1 obtain ba where s1: "s1 = s\<lparr>batting_average := ba\<rparr>"
    and ba: "if 0 < at_bats s then rounded_ratio (hits s) (at_bats s) = Inr ba else ba = batting_average s"
    unfolding set_batting_average_Inr by blast
  from 2 obtain obp where s2: "s2 = s1\<lparr>on_base_percentage := obp\<rparr>"
    and obp: "if 0 < at_bats s1 + walks s1 then rounded_ratio (hits s1 + walks s1) (at_bats s1 + walks s1) = Inr obp
              else obp = on_base_percentage s1"
    unfolding set_on_base_percentage_Inr by blast
  from 3 obtain slg where s3: "s3 = s2\<lparr>slugging_percentage := slg\<rparr>"
    and slg: "if 0 < at_bats s2 then rounded_ratio (total_bases s2) (at_bats s2) = Inr slg
              else slg = slugging_percentage s2"
    unfolding set_slugging_percentage_Inr by blast
  from 4 obtain opv where r: "r = s3\<lparr>ops := opv\<rparr>"
    and opv: "py_round (fadd (on_base_percentage s3) (slugging_percentage s3)) 3 = Inr opv"
    unfolding set_ops_Inr by blast
  have "r = s\<lparr>batting_average := ba, on_base_percentage := obp, slugging_percentage := slg, ops := opv\<rparr>"
    by (simp add: r s3 s2 s1)
  moreover have "if 0 < at_bats s + walks s then rounded_ratio (hits s + walks s) (at_bats s + walks s) = Inr obp
            else obp = on_base_percentage s"
    using obp by (auto simp: s1 split: if_splits)
  moreover have "if 0 < at_bats s then rounded_ratio (total_bases s) (at_bats s) = Inr slg
            else slg = slugging_percentage s"
    using slg by (auto simp: s2 s1 split: if_splits)
  moreover have "py_round (fadd obp slg) 3 = Inr opv"
    using opv by (simp add: s3 s2)
  ultimately show ?thesis
    using ba by blast
qed

section \<open>The returned records and their keys\<close>

lemma set_era_Inr:
  "set_era s = Inr r \<longleftrightarrow>
     (\<exists>x. r = s\<lparr>era := x\<rparr>
          \<and> (if fpositive (innings_pitched s)
              then rounded_int_float (earned_runs s * 9) (innings_pitched s) = Inr x else x = era s))"
  by (auto simp: set_era_def rounded_int_float_def bind_eq_Inr)

lemma set_whip_Inr:
  "set_whip s = Inr r \<longleftrightarrow>
     (\<exists>x. r = s\<lparr>whip := x\<rparr>
          \<and> (if fpositive (innings_pitched s)
              then rounded_int_float (hits_allowed s + walks_allowed s) (innings_pitched s) = Inr x
              else x = whip s))"
  by (auto simp: set_whip_def rounded_int_float_def bind_eq_Inr)

lemma pitching_averages_Inr:
  assumes "pitching_averages s = Inr r"
  shows "\<exists>e w. r = s\<lparr>era := e, whip := w\<rparr>
        \<and> (if fpositive (innings_pitched s)
            then rounded_int_float (earned_runs s * 9) (innings_pitched s) = Inr e else e = era s)
        \<and> (if fpositive (innings_pitched s)
            then rounded_int_float (hits_allowed s + walks_allowed s) (innings_pitched s) = Inr w
            else w = whip s)"
proof -
  from assms obtain s1 where 1: "set_era s = Inr s1" and 2: "set_whip s1 = Inr r"
    unfolding pitching_averages_def bind_eq_Inr by blast
  from 1 obtain e where s1: "s1 = s\<lparr>era := e\<rparr>"
    and e: "if fpositive (innings_pitched s)
            then rounded_int_float (earned_runs s * 9) (innings_pitched s) = Inr e else e = era s"
    unfolding set_era_Inr by blast
  from 2 obtain w where r: "r = s1\<lparr>whip := w\<rparr>"
    and w: "if fpositive (innings_pitched s1)
            then rounded_int_float (hits_allowed s1 + walks_allowed s1) (innings_pitched s1) = Inr w
            else w = whip s1"
    unfolding set_whip_Inr by blast
  have "r = s\<lparr>era := e, whip := w\<rparr>"
    by (simp add: r s1)
  moreover have "if fpositive (innings_pitched s)
            then rounded_int_float (hits_allowed s + walks_allowed s) (innings_pitched s) = Inr w
            else w = whip s"
    using w by (auto simp: s1 split: if_splits)
  ultimately show ?thesis
    using e by blast
qed

lemma calculate_batting_averages_Inr:
  "calculate_batting_averages d = Inr bl \<longleftrightarrow>
     list_all2 (\<lambda>e r. batting_averages (snd e) = Inr r) d bl"
proof (induction d arbitrary: bl)
  case Nil
  show ?case by auto
next
  case (Cons e d)
  show ?case
    by (auto simp: bind_eq_Inr Cons.IH list_all2_Cons1)
qed

lemma calculate_pitching_averages_Inr:
  "calculate_pitching_averages d = Inr pl \<longleftrightarrow>
     list_all2 (\<lambda>e r. pitching_averages (snd e) = Inr r) d pl"
proof (induction d arbitrary: pl)
  case Nil
  show ?case by auto
next
  case (Cons e d)
  show ?case
    by (auto simp: bind_eq_Inr Cons.IH list_all2_Cons1)
qed

lemma table_entry_source:
  assumes "list_all2 (\<lambda>e r. R (snd e) r) d rs" and "(k, r) \<in> set (zip (map fst d) rs)"
  shows "\<exists>s. (k, s) \<in> set d \<and> R s r"
  using assms
proof (induction d rs rule: list_all2_induct)
  case Nil
  then show ?case by simp
next
  case (Cons e d r' rs)
  then show ?case by (cases e) auto
qed

lemma table_entry_target:
  assumes "list_all2 (\<lambda>e r. R (snd e) r) d rs" and "(k, s) \<in> set d"
  shows "\<exists>r. (k, r) \<in> set (zip (map fst d) rs) \<and> R s r"
  using assms
proof (induction d rs rule: list_all2_induct)
  case Nil
  then show ?case by simp
next
  case (Cons e d r' rs)
  then show ?case by (cases e) auto
qed

lemma table_keys:
  assumes "list_all2 R d rs"
  shows "map fst (zip (map fst d) rs) = map fst d" and "map snd (zip (map fst d) rs) = rs"
  using assms by (induction d rs rule: list_all2_induct) auto

lemma aggregate_tables_Inr:
  assumes "aggregate_tables gs = Inr (tb, tp)"
  obtains bs ps where
    "process_tagged add_batting default_batting (batting_lines gs) [] = Inr bs"
    "process_tagged add_pitching default_pitching (pitching_lines gs) [] = Inr ps"
    "list_all2 (\<lambda>e r. batting_averages (snd e) = Inr r) bs (map snd tb)"
    "list_all2 (\<lambda>e r. pitching_averages (snd e) = Inr r) ps (map snd tp)"
    "tb = zip (map fst bs) (map snd tb)" "tp = zip (map fst ps) (map snd tp)"
    "map fst tb = map fst bs" "map fst tp = map fst ps"
proof -
  from assms obtain acc bl pl where
    acc: "process_games gs [] [] = Inr acc"
    and bl: "calculate_batting_averages (fst acc) = Inr bl"
    and pl: "calculate_pitching_averages (snd acc) = Inr pl"
    and tb: "tb = zip (map fst (fst acc)) bl" and tp: "tp = zip (map fst (snd acc)) pl"
    unfolding aggregate_tables_def bind_eq_Inr by auto
  have b2: "list_all2 (\<lambda>e r. batting_averages (snd e) = Inr r) (fst acc) bl"
    using bl by (simp add: calculate_batting_averages_Inr)
  have p2: "list_all2 (\<lambda>e r. pitching_averages (snd e) = Inr r) (snd acc) pl"
    using pl by (simp add: calculate_pitching_averages_Inr)
  have sb: "map snd tb = bl" "map fst tb = map fst (fst acc)"
    using table_keys [OF b2] by (simp_all add: tb)
  have sp: "map snd tp = pl" "map fst tp = map fst (snd acc)"
    using table_keys [OF p2] by (simp_all add: tp)
  have "process_tagged add_batting default_batting (batting_lines gs) [] = Inr (fst acc)"
    "process_tagged add_pitching default_pitching (pitching_lines gs) [] = Inr (snd acc)"
    using acc process_games_Inr [of gs "[]" "[]" "fst acc" "snd acc"] by simp_all
  then show ?thesis
    using that [of "fst acc" "snd acc"] b2 p2 sb sp tb tp by simp
qed

lemma calculate_aggregate_stats_tables:
  "calculate_aggregate_stats gs =
     (case aggregate_tables gs of Inl e \<Rightarrow> Inl e | Inr t \<Rightarrow> Inr (map snd (fst t), map snd (snd t)))"
proof (cases "process_games gs [] []")
  case (Inl e)
  then show ?thesis by (simp add: calculate_aggregate_stats_def aggregate_tables_def)
next
  case (Inr acc)
  show ?thesis
  proof (cases "calculate_batting_averages (fst acc)")
    case (Inl e)
    then show ?thesis using Inr by (simp add: calculate_aggregate_stats_def aggregate_tables_def)
  next
    case bl: (Inr bl)
    show ?thesis
    proof (cases "calculate_pitching_averages (snd acc)")
      case (Inl e)
      then show ?thesis using Inr bl by (simp add: calculate_aggregate_stats_def aggregate_tables_def)
    next
      case pl: (Inr pl)
      have "map snd (zip (map fst (fst acc)) bl) = bl" "map snd (zip (map fst (snd acc)) pl) = pl"
        using table_keys(2) bl pl
        by (simp_all add: calculate_batting_averages_Inr calculate_pitching_averages_Inr table_keys(2))
      then show ?thesis
        using Inr bl pl by (simp add: calculate_aggregate_stats_def aggregate_tables_def)
    qed
  qed
qed

section \<open>Claims about the aggregated records\<close>

lemma sum_list_ones: "sum_list (map (\<lambda>e. 1::int) xs) = int (length xs)"
  by (induction xs) auto

lemma add_batting_games:
  "add_batting l (touched t l s) = Inr s' \<Longrightarrow> games s' = games s + 1"
  by (drule add_batting_Inr) (simp add: touched_def)

lemma add_pitching_games:
  "add_pitching l (touched t l s) = Inr s' \<Longrightarrow> games s' = games s + 1"
  by (drule add_pitching_Inr) (simp add: touched_def)

lemma add_batting_keep:
  "add_batting l s = Inr s' \<Longrightarrow> player_name s' = player_name s \<and> team s' = team s"
  by (drule add_batting_Inr) simp

lemma add_pitching_keep:
  "add_pitching l s = Inr s' \<Longrightarrow> player_name s' = player_name s \<and> team s' = team s"
  by (drule add_pitching_Inr) simp

lemma accumulated_entry:
  assumes run: "process_tagged add dflt tls [] = Inr d" and mem: "(k, s) \<in> set d"
  shows "map_of d k = Some s" and "lines_of_key k tls \<noteq> []"
proof -
  have "distinct (map fst d)"
    using process_tagged_distinct [OF run] by simp
  then show "map_of d k = Some s"
    using mem by simp
  have "k \<in> fst ` set d"
    using mem by force
  then have "k \<in> (\<lambda>e. player_key (snd e)) ` set tls"
    using process_tagged_keys [OF run] by simp
  then show "lines_of_key k tls \<noteq> []"
    by (auto simp: lines_of_key_def filter_empty_conv)
qed

lemma batting_entry:
  assumes "aggregate_tables gs = Inr (tb, tp)" and "(k, r) \<in> set tb"
  obtains bs s where
    "process_tagged add_batting default_batting (batting_lines gs) [] = Inr bs"
    "(k, s) \<in> set bs" "map_of bs k = Some s" "batting_averages s = Inr r"
    "lines_of_key k (batting_lines gs) \<noteq> []"
proof -
  from assms(1) obtain bs where
    run: "process_tagged add_batting default_batting (batting_lines gs) [] = Inr bs"
    and rel: "list_all2 (\<lambda>e r. batting_averages (snd e) = Inr r) bs (map snd tb)"
    and tb: "tb = zip (map fst bs) (map snd tb)"
    by (rule aggregate_tables_Inr)
  from assms(2) tb have "(k, r) \<in> set (zip (map fst bs) (map snd tb))"
    by simp
  from table_entry_source [OF rel this] obtain s where
    s: "(k, s) \<in> set bs" "batting_averages s = Inr r"
    by blast
  show ?thesis
    using that [OF run s(1) accumulated_entry(1) [OF run s(1)] s(2) accumulated_entry(2) [OF run s(1)]] .
qed

lemma pitching_entry:
  assumes "aggregate_tables gs = Inr (tb, tp)" and "(k, r) \<in> set tp"
  obtains ps s where
    "process_tagged add_pitching default_pitching (pitching_lines gs) [] = Inr ps"
    "(k, s) \<in> set ps" "map_of ps k = Some s" "pitching_averages s = Inr r"
    "lines_of_key k (pitching_lines gs) \<noteq> []"
proof -
  from assms(1) obtain ps where
    run: "process_tagged add_pitching default_pitching (pitching_lines gs) [] = Inr ps"
    and rel: "list_all2 (\<lambda>e r. pitching_averages (snd e) = Inr r) ps (map snd tp)"
    and tp: "tp = zip (map fst ps) (map snd tp)"
    by (rule aggregate_tables_Inr)
  from assms(2) tp have "(k, r) \<in> set (zip (map fst ps) (map snd tp))"
    by simp
  from table_entry_source [OF rel this] obtain s where
    s: "(k, s) \<in> set ps" "pitching_averages s = Inr r"
    by blast
  show ?thesis
    using that [OF run s(1) accumulated_entry(1) [OF run s(1)] s(2) accumulated_entry(2) [OF run s(1)]] .
qed

lemma table_key_sets:
  assumes "aggregate_tables gs = Inr (tb, tp)"
  shows "fst ` set tb = (\<lambda>e. player_key (snd e)) ` set (batting_lines gs)"
    and "fst ` set tp = (\<lambda>e. player_key (snd e)) ` set (pitching_lines gs)"
    and "distinct (map fst tb)" and "distinct (map fst tp)"
    and "calculate_aggregate_stats gs = Inr (map snd tb, map snd tp)"
proof -
  from assms obtain bs ps where
    runb: "process_tagged add_batting default_batting (batting_lines gs) [] = Inr bs"
    and runp: "process_tagged add_pitching default_pitching (pitching_lines gs) [] = Inr ps"
    and kb: "map fst tb = map fst bs" and kp: "map fst tp = map fst ps"
    by (rule aggregate_tables_Inr)
  have sb: "fst ` set tb = fst ` set bs" and sp: "fst ` set tp = fst ` set ps"
    using kb kp by (metis set_map)+
  show "fst ` set tb = (\<lambda>e. player_key (snd e)) ` set (batting_lines gs)"
    using process_tagged_keys [OF runb] by (simp add: sb)
  show "fst ` set tp = (\<lambda>e. player_key (snd e)) ` set (pitching_lines gs)"
    using process_tagged_keys [OF runp] by (simp add: sp)
  show "distinct (map fst tb)"
    using process_tagged_distinct [OF runb] by (simp add: kb)
  show "distinct (map fst tp)"
    using process_tagged_distinct [OF runp] by (simp add: kp)
  show "calculate_aggregate_stats gs = Inr (map snd tb, map snd tp)"
    using assms by (simp add: calculate_aggregate_stats_tables)
qed

lemma table_has_record:
  assumes "fst ` set tb = f ` set tls"
  shows "\<forall>e \<in> set tls. \<exists>r. (f e, r) \<in> set tb"
proof
  fix e assume "e \<in> set tls"
  then have "f e \<in> fst ` set tb"
    using assms by blast
  then show "\<exists>r. (f e, r) \<in> set tb"
    by force
qed

text \<open>
  Claim C8. When the call returns, every batting line of every game has a record in the
  batting result, under its key, and there is one record for each key. The \<open>games\<close>
  field of a record is the number of batting lines, over all games and both sides, whose
  key is that record's key. (The tables are the returned lists with their keys.)
\<close>

theorem games_counts_batting_lines:
  assumes "aggregate_tables gs = Inr (tb, tp)"
  shows "calculate_aggregate_stats gs = Inr (map snd tb, map snd tp)
       \<and> distinct (map fst tb)
       \<and> (\<forall>e \<in> set (batting_lines gs). \<exists>r. (player_key (snd e), r) \<in> set tb)
       \<and> (\<forall>k r. (k, r) \<in> set tb \<longrightarrow> games r = int (length (lines_of_key k (batting_lines gs))))"
proof -
  have returned: "calculate_aggregate_stats gs = Inr (map snd tb, map snd tp)"
    by (rule table_key_sets(5) [OF assms])
  have one: "distinct (map fst tb)"
    by (rule table_key_sets(3) [OF assms])
  have every: "\<forall>e \<in> set (batting_lines gs). \<exists>r. (player_key (snd e), r) \<in> set tb"
    by (rule table_has_record [OF table_key_sets(1) [OF assms]])
  have counted: "\<forall>k r. (k, r) \<in> set tb \<longrightarrow> games r = int (length (lines_of_key k (batting_lines gs)))"
  proof (intro allI impI)
    fix k r
    assume "(k, r) \<in> set tb"
    with assms obtain bs s where
      run: "process_tagged add_batting default_batting (batting_lines gs) [] = Inr bs"
      and s: "map_of bs k = Some s" "batting_averages s = Inr r"
      by (rule batting_entry)
    have "games (get_field (map_of bs k) default_batting) =
          games (get_field (map_of [] k) default_batting)
            + sum_list (map (\<lambda>e. 1) (lines_of_key k (batting_lines gs)))"
      by (rule process_tagged_sum [OF _ run]) (rule add_batting_games)
    then have "games s = int (length (lines_of_key k (batting_lines gs)))"
      using s(1) by (simp add: get_field_def default_batting_def sum_list_ones)
    moreover have "games r = games s"
      using batting_averages_Inr [OF s(2)] by auto
    ultimately show "games r = int (length (lines_of_key k (batting_lines gs)))"
      by simp
  qed
  show ?thesis
    using returned one every counted by (intro conjI)
qed

theorem games_counts_batting_lines_witness:
  "calculate_aggregate_stats [blank_id_game] =
     Inr ([\<lparr>player_name = ''Bob'', team = ''Reds'', games = 1, at_bats = 1, hits = 0,
            runs = 0, rbis = 0, doubles = 0, triples = 0, home_runs = 0, walks = 0, strikeouts = 0,
            batting_average = fzero, on_base_percentage = fzero, slugging_percentage = fzero,
            ops = fzero\<rparr>,
           \<lparr>player_name = ''Bob'', team = ''Reds'', games = 2, at_bats = 5, hits = 0,
            runs = 0, rbis = 0, doubles = 0, triples = 0, home_runs = 0, walks = 0, strikeouts = 0,
            batting_average = fzero, on_base_percentage = fzero, slugging_percentage = fzero,
            ops = fzero\<rparr>], [])
   \<and> int (length (lines_of_key [] (batting_lines [blank_id_game]))) = 1
   \<and> int (length (lines_of_key ''unknown_Bob'' (batting_lines [blank_id_game]))) = 2"
proof -
  let ?a = "\<lparr>player_name = ''Bob'', team = ''Reds'', games = 1, at_bats = 1, hits = 0,
            runs = 0, rbis = 0, doubles = 0, triples = 0, home_runs = 0, walks = 0, strikeouts = 0,
            batting_average = fzero, on_base_percentage = fzero, slugging_percentage = fzero,
            ops = fzero\<rparr>"
  let ?b = "\<lparr>player_name = ''Bob'', team = ''Reds'', games = 2, at_bats = 5, hits = 0,
            runs = 0, rbis = 0, doubles = 0, triples = 0, home_runs = 0, walks = 0, strikeouts = 0,
            batting_average = fzero, on_base_percentage = fzero, slugging_percentage = fzero,
            ops = fzero\<rparr>"
  have run: "aggregate_tables [blank_id_game] = Inr ([([], ?a), (''unknown_Bob'', ?b)], [])"
    by code_simp
  note t = games_counts_batting_lines [OF run]
  have returned: "calculate_aggregate_stats [blank_id_game] = Inr ([?a, ?b], [])"
    using t by simp
  have "([], ?a) \<in> set [([], ?a), (''unknown_Bob'', ?b)]"
    by simp
  with t have a: "games ?a = int (length (lines_of_key [] (batting_lines [blank_id_game])))"
    by blast
  have "(''unknown_Bob'', ?b) \<in> set [([], ?a), (''unknown_Bob'', ?b)]"
    by simp
  with t have b: "games ?b = int (length (lines_of_key ''unknown_Bob'' (batting_lines [blank_id_game])))"
    by blast
  show ?thesis
    using returned a b by simp
qed

text \<open>
  Claim C7. When the call returns, every batting line has a record in the batting result
  and every pitching line one in the pitching result, under its key, one record for each
  key. The \<open>player_name\<close> and \<open>team\<close> of a returned record are those of the last line
  processed for its key: the name of that line (or \<^verbatim>\<open>Unknown\<close> when it has none) and the team
  of the side the line stood on. This holds for batting and for pitching records, and for
  every key, not only for one that appears more than once.
\<close>

theorem last_write_wins:
  assumes "aggregate_tables gs = Inr (tb, tp)"
  shows "calculate_aggregate_stats gs = Inr (map snd tb, map snd tp)
       \<and> distinct (map fst tb) \<and> distinct (map fst tp)
       \<and> (\<forall>e \<in> set (batting_lines gs). \<exists>r. (player_key (snd e), r) \<in> set tb)
       \<and> (\<forall>e \<in> set (pitching_lines gs). \<exists>r. (player_key (snd e), r) \<in> set tp)
       \<and> (\<forall>k r. (k, r) \<in> set tb \<longrightarrow>
            player_name r = get_field (name (snd (last (lines_of_key k (batting_lines gs))))) ''Unknown''
            \<and> team r = fst (last (lines_of_key k (batting_lines gs))))
       \<and> (\<forall>k r. (k, r) \<in> set tp \<longrightarrow>
            player_name r = get_field (name (snd (last (lines_of_key k (pitching_lines gs))))) ''Unknown''
            \<and> team r = fst (last (lines_of_key k (pitching_lines gs))))"
proof -
  have returned: "calculate_aggregate_stats gs = Inr (map snd tb, map snd tp)"
    by (rule table_key_sets(5) [OF assms])
  have oneb: "distinct (map fst tb)" and onep: "distinct (map fst tp)"
    by (rule table_key_sets(3) [OF assms], rule table_key_sets(4) [OF assms])
  have everyb: "\<forall>e \<in> set (batting_lines gs). \<exists>r. (player_key (snd e), r) \<in> set tb"
    by (rule table_has_record [OF table_key_sets(1) [OF assms]])
  have everyp: "\<forall>e \<in> set (pitching_lines gs). \<exists>r. (player_key (snd e), r) \<in> set tp"
    by (rule table_has_record [OF table_key_sets(2) [OF assms]])
  have lastb: "\<forall>k r. (k, r) \<in> set tb \<longrightarrow>
            player_name r = get_field (name (snd (last (lines_of_key k (batting_lines gs))))) ''Unknown''
            \<and> team r = fst (last (lines_of_key k (batting_lines gs)))"
  proof (intro allI impI)
    fix k r
    assume "(k, r) \<in> set tb"
    with assms obtain bs s where
      run: "process_tagged add_batting default_batting (batting_lines gs) [] = Inr bs"
      and s: "map_of bs k = Some s" "batting_averages s = Inr r"
      and ne: "lines_of_key k (batting_lines gs) \<noteq> []"
      by (rule batting_entry)
    from process_tagged_last [OF add_batting_keep run ne] s(1)
    have "player_name s = get_field (name (snd (last (lines_of_key k (batting_lines gs))))) ''Unknown''"
      and "team s = fst (last (lines_of_key k (batting_lines gs)))"
      by auto
    moreover have "player_name r = player_name s" "team r = team s"
      using batting_averages_Inr [OF s(2)] by auto
    ultimately show
      "player_name r = get_field (name (snd (last (lines_of_key k (batting_lines gs))))) ''Unknown''
       \<and> team r = fst (last (lines_of_key k (batting_lines gs)))"
      by simp
  qed
  have lastp: "\<forall>k r. (k, r) \<in> set tp \<longrightarrow>
            player_name r = get_field (name (snd (last (lines_of_key k (pitching_lines gs))))) ''Unknown''
            \<and> team r = fst (last (lines_of_key k (pitching_lines gs)))"
  proof (intro allI impI)
    fix k r
    assume "(k, r) \<in> set tp"
    with assms obtain ps s where
      run: "process_tagged add_pitching default_pitching (pitching_lines gs) [] = Inr ps"
      and s: "map_of ps k = Some s" "pitching_averages s = Inr r"
      and ne: "lines_of_key k (pitching_lines gs) \<noteq> []"
      by (rule pitching_entry)
    from process_tagged_last [OF add_pitching_keep run ne] s(1)
    have "player_name s = get_field (name (snd (last (lines_of_key k (pitching_lines gs))))) ''Unknown''"
      and "team s = fst (last (lines_of_key k (pitching_lines gs)))"
      by auto
    moreover have "player_name r = player_name s" "team r = team s"
      using pitching_averages_Inr [OF s(2)] by auto
    ultimately show
      "player_name r = get_field (name (snd (last (lines_of_key k (pitching_lines gs))))) ''Unknown''
       \<and> team r = fst (last (lines_of_key k (pitching_lines gs)))"
      by simp
  qed
  show ?thesis
    using returned oneb onep everyb everyp lastb lastp by (intro conjI)
qed

theorem last_write_wins_witness:
  "calculate_aggregate_stats renamed_player_games =
     Inr ([\<lparr>player_name = ''Alan'', team = ''Reds'', games = 2, at_bats = 7, hits = 0,
            runs = 0, rbis = 0, doubles = 0, triples = 0, home_runs = 0, walks = 0, strikeouts = 0,
            batting_average = fzero, on_base_percentage = fzero, slugging_percentage = fzero,
            ops = fzero\<rparr>],
          [\<lparr>player_name = ''Unknown'', team = ''Mets'', games = 2, wins = 1, losses = 1, saves = 0,
            innings_pitched = fzero, hits_allowed = 0, runs_allowed = 0, earned_runs = 0,
            walks_allowed = 0, pitching_strikeouts = 0, home_runs_allowed = 0, era = fzero,
            whip = fzero\<rparr>])
   \<and> get_field (name (snd (last (lines_of_key ''5'' (batting_lines renamed_player_games))))) ''Unknown'' = ''Alan''
   \<and> fst (last (lines_of_key ''5'' (batting_lines renamed_player_games))) = ''Reds''
   \<and> get_field (name (snd (last (lines_of_key ''5'' (pitching_lines renamed_player_games))))) ''Unknown'' = ''Unknown''
   \<and> fst (last (lines_of_key ''5'' (pitching_lines renamed_player_games))) = ''Mets''"
proof -
  let ?b = "\<lparr>player_name = ''Alan'', team = ''Reds'', games = 2, at_bats = 7, hits = 0,
            runs = 0, rbis = 0, doubles = 0, triples = 0, home_runs = 0, walks = 0, strikeouts = 0,
            batting_average = fzero, on_base_percentage = fzero, slugging_percentage = fzero,
            ops = fzero\<rparr>"
  let ?p = "\<lparr>player_name = ''Unknown'', team = ''Mets'', games = 2, wins = 1, losses = 1, saves = 0,
            innings_pitched = fzero, hits_allowed = 0, runs_allowed = 0, earned_runs = 0,
            walks_allowed = 0, pitching_strikeouts = 0, home_runs_allowed = 0, era = fzero,
            whip = fzero\<rparr>"
  have run: "aggregate_tables renamed_player_games = Inr ([(''5'', ?b)], [(''5'', ?p)])"
    by code_simp
  note t = last_write_wins [OF run]
  have returned: "calculate_aggregate_stats renamed_player_games = Inr ([?b], [?p])"
    using t by simp
  have "(''5'', ?b) \<in> set [(''5'', ?b)]"
    by simp
  with t have b: "player_name ?b = get_field (name (snd (last (lines_of_key ''5'' (batting_lines renamed_player_games))))) ''Unknown''
      \<and> team ?b = fst (last (lines_of_key ''5'' (batting_lines renamed_player_games)))"
    by blast
  have "(''5'', ?p) \<in> set [(''5'', ?p)]"
    by simp
  with t have p: "player_name ?p = get_field (name (snd (last (lines_of_key ''5'' (pitching_lines renamed_player_games))))) ''Unknown''
      \<and> team ?p = fst (last (lines_of_key ''5'' (pitching_lines renamed_player_games)))"
    by blast
  show ?thesis
    using returned b p by simp
qed

lemma batting_derived_zero:
  assumes "process_tagged add_batting default_batting tls [] = Inr bs" and "(k, s) \<in> set bs"
  shows "derived_zero s"
proof -
  have "\<forall>s \<in> snd ` set bs. derived_zero s"
  proof (rule process_tagged_invariant [OF _ _ assms(1)])
    show "derived_zero default_batting"
      by (simp add: derived_zero_def default_batting_def)
    show "\<forall>s \<in> snd ` set []. derived_zero s"
      by simp
    show "derived_zero s'" if "derived_zero s" "add_batting l (touched t l s) = Inr s'" for t l s s'
      using that(1) add_batting_Inr [OF that(2)] by (simp add: derived_zero_def touched_def)
  qed
  then show ?thesis
    using assms(2) by force
qed

lemma pitching_rates_zero:
  assumes "process_tagged add_pitching default_pitching tls [] = Inr ps" and "(k, s) \<in> set ps"
  shows "rates_zero s"
proof -
  have "\<forall>s \<in> snd ` set ps. rates_zero s"
  proof (rule process_tagged_invariant [OF _ _ assms(1)])
    show "rates_zero default_pitching"
      by (simp add: rates_zero_def default_pitching_def)
    show "\<forall>s \<in> snd ` set []. rates_zero s"
      by simp
    show "rates_zero s'" if "rates_zero s" "add_pitching l (touched t l s) = Inr s'" for t l s s'
      using that(1) add_pitching_Inr [OF that(2)] by (simp add: rates_zero_def touched_def)
  qed
  then show ?thesis
    using assms(2) by force
qed

lemma round_zero_sum: "py_round (fadd fzero fzero) 3 = Inr fzero"
  by code_simp

text \<open>
  Claim C2, as the code has it. Whenever the call returns: for a batting record with
  \<open>at_bats = 0\<close>, the batting average and the slugging percentage are \<open>0.0\<close>. The
  on-base percentage is guarded by \<open>at_bats + walks\<close>, not by \<open>at_bats\<close>: it is \<open>0.0\<close>,
  and so is the OPS, when the player has no walk either; with walks it is
  \<^verbatim>\<open>round((hits + walks) / walks, 3)\<close>, and the OPS is that value plus \<open>0.0\<close>, rounded.
  For a pitching record with \<open>innings_pitched = 0.0\<close>, the ERA and the WHIP are \<open>0.0\<close>.
\<close>

theorem zero_denominator_guards:
  assumes "aggregate_tables gs = Inr (tb, tp)"
  shows "(\<forall>k r. (k, r) \<in> set tb \<and> at_bats r = 0 \<longrightarrow>
            batting_average r = fzero \<and> slugging_percentage r = fzero
            \<and> (if 0 < walks r
                then rounded_ratio (hits r + walks r) (walks r) = Inr (on_base_percentage r)
                     \<and> py_round (fadd (on_base_percentage r) fzero) 3 = Inr (ops r)
                else on_base_percentage r = fzero \<and> ops r = fzero))
       \<and> (\<forall>k r. (k, r) \<in> set tp \<and> innings_pitched r = fzero \<longrightarrow> era r = fzero \<and> whip r = fzero)"
proof -
  have batting: "\<forall>k r. (k, r) \<in> set tb \<and> at_bats r = 0 \<longrightarrow>
            batting_average r = fzero \<and> slugging_percentage r = fzero
            \<and> (if 0 < walks r
                then rounded_ratio (hits r + walks r) (walks r) = Inr (on_base_percentage r)
                     \<and> py_round (fadd (on_base_percentage r) fzero) 3 = Inr (ops r)
                else on_base_percentage r = fzero \<and> ops r = fzero)"
  proof (intro allI impI, elim conjE)
  fix k r
  assume mem: "(k, r) \<in> set tb" and ab: "at_bats r = 0"
  from assms mem obtain bs s where
    run: "process_tagged add_batting default_batting (batting_lines gs) [] = Inr bs"
    and s: "(k, s) \<in> set bs" "batting_averages s = Inr r"
    by (rule batting_entry)
  have z: "derived_zero s"
    by (rule batting_derived_zero [OF run s(1)])
  from batting_averages_Inr [OF s(2)] obtain ba obp slg opv where
    r: "r = s\<lparr>batting_average := ba, on_base_percentage := obp, slugging_percentage := slg, ops := opv\<rparr>"
    and ba: "if 0 < at_bats s then rounded_ratio (hits s) (at_bats s) = Inr ba else ba = batting_average s"
    and obp: "if 0 < at_bats s + walks s then rounded_ratio (hits s + walks s) (at_bats s + walks s) = Inr obp
              else obp = on_base_percentage s"
    and slg: "if 0 < at_bats s then rounded_ratio (total_bases s) (at_bats s) = Inr slg
              else slg = slugging_percentage s"
    and opv: "py_round (fadd obp slg) 3 = Inr opv"
    by blast
  have ab_s: "at_bats s = 0"
    using ab by (simp add: r)
  have ba0: "ba = fzero" and slg0: "slg = fzero"
    using ba slg z by (simp_all add: ab_s derived_zero_def)
  show "batting_average r = fzero \<and> slugging_percentage r = fzero
        \<and> (if 0 < walks r
            then rounded_ratio (hits r + walks r) (walks r) = Inr (on_base_percentage r)
                 \<and> py_round (fadd (on_base_percentage r) fzero) 3 = Inr (ops r)
            else on_base_percentage r = fzero \<and> ops r = fzero)"
  proof (cases "0 < walks s")
    case True
    then show ?thesis
      using obp opv by (simp add: r ab_s ba0 slg0)
  next
    case False
    then have "obp = fzero"
      using obp z by (simp add: ab_s derived_zero_def)
    then have "opv = fzero"
      using opv round_zero_sum by (simp add: slg0)
    then show ?thesis
      using False \<open>obp = fzero\<close> by (simp add: r ba0 slg0)
  qed
  qed
  have pitching: "\<forall>k r. (k, r) \<in> set tp \<and> innings_pitched r = fzero \<longrightarrow> era r = fzero \<and> whip r = fzero"
  proof (intro allI impI, elim conjE)
  fix k r
  assume mem: "(k, r) \<in> set tp" and ip: "innings_pitched r = fzero"
  from assms mem obtain ps s where
    run: "process_tagged add_pitching default_pitching (pitching_lines gs) [] = Inr ps"
    and s: "(k, s) \<in> set ps" "pitching_averages s = Inr r"
    by (rule pitching_entry)
  have z: "rates_zero s"
    by (rule pitching_rates_zero [OF run s(1)])
  from pitching_averages_Inr [OF s(2)] obtain e w where
    r: "r = s\<lparr>era := e, whip := w\<rparr>"
    and e: "if fpositive (innings_pitched s)
            then rounded_int_float (earned_runs s * 9) (innings_pitched s) = Inr e else e = era s"
    and w: "if fpositive (innings_pitched s)
            then rounded_int_float (hits_allowed s + walks_allowed s) (innings_pitched s) = Inr w
            else w = whip s"
    by blast
  have "innings_pitched s = fzero"
    using ip by (simp add: r)
  then show "era r = fzero \<and> whip r = fzero"
    using e w z by (simp add: r rates_zero_def)
  qed
  show ?thesis
    by (rule conjI [OF batting pitching])
qed

theorem zero_denominator_guards_witness:
  "aggregate_tables [walk_only_game] =
     Inr ([(''123'', \<lparr>player_name = ''P'', team = ''Reds'', games = 1, at_bats = 0, hits = 0,
            runs = 0, rbis = 0, doubles = 0, triples = 0, home_runs = 0, walks = 1, strikeouts = 0,
            batting_average = fzero, on_base_percentage = Fin 1 0, slugging_percentage = fzero,
            ops = Fin 1 0\<rparr>)],
          [(''9'', \<lparr>player_name = ''Q'', team = ''Cubs'', games = 1, wins = 0, losses = 0, saves = 0,
            innings_pitched = fzero, hits_allowed = 2, runs_allowed = 0, earned_runs = 0,
            walks_allowed = 0, pitching_strikeouts = 0, home_runs_allowed = 0, era = fzero,
            whip = fzero\<rparr>)])
   \<and> rounded_ratio (0 + 1) 1 = Inr (Fin 1 0)
   \<and> py_round (fadd (Fin 1 0) fzero) 3 = Inr (Fin 1 0)"
proof -
  let ?r = "\<lparr>player_name = ''P'', team = ''Reds'', games = 1, at_bats = 0, hits = 0,
            runs = 0, rbis = 0, doubles = 0, triples = 0, home_runs = 0, walks = 1, strikeouts = 0,
            batting_average = fzero, on_base_percentage = Fin 1 0, slugging_percentage = fzero,
            ops = Fin 1 0\<rparr>"
  let ?p = "\<lparr>player_name = ''Q'', team = ''Cubs'', games = 1, wins = 0, losses = 0, saves = 0,
            innings_pitched = fzero, hits_allowed = 2, runs_allowed = 0, earned_runs = 0,
            walks_allowed = 0, pitching_strikeouts = 0, home_runs_allowed = 0, era = fzero,
            whip = fzero\<rparr>"
  have run: "aggregate_tables [walk_only_game] = Inr ([(''123'', ?r)], [(''9'', ?p)])"
    by code_simp
  note t = zero_denominator_guards [OF run]
  have "(''123'', ?r) \<in> set [(''123'', ?r)] \<and> at_bats ?r = 0"
    by simp
  with t have b: "if 0 < walks ?r
         then rounded_ratio (hits ?r + walks ?r) (walks ?r) = Inr (on_base_percentage ?r)
              \<and> py_round (fadd (on_base_percentage ?r) fzero) 3 = Inr (ops ?r)
         else on_base_percentage ?r = fzero \<and> ops ?r = fzero"
    by blast
  have "(''9'', ?p) \<in> set [(''9'', ?p)] \<and> innings_pitched ?p = fzero"
    by simp
  with t have "era ?p = fzero \<and> whip ?p = fzero"
    by blast
  with b show ?thesis
    using run by simp
qed

text \<open>
  Claim C2 as stated fails: a player with one walk and no at-bat has \<open>at_bats = 0\<close> and an
  on-base percentage and an OPS of \<open>1.0\<close>. Nor is an error excluded: the guards only
  keep the divisor from being zero, and with \<open>10 ^ 309\<close> hits besides the walk the division
  raises \<^verbatim>\<open>OverflowError\<close>.
\<close>

theorem zero_at_bats_counterexample:
  "calculate_aggregate_stats [walk_only_game] =
     Inr ([\<lparr>player_name = ''P'', team = ''Reds'', games = 1, at_bats = 0, hits = 0,
            runs = 0, rbis = 0, doubles = 0, triples = 0, home_runs = 0, walks = 1, strikeouts = 0,
            batting_average = fzero, on_base_percentage = Fin 1 0, slugging_percentage = fzero,
            ops = Fin 1 0\<rparr>],
          [\<lparr>player_name = ''Q'', team = ''Cubs'', games = 1, wins = 0, losses = 0, saves = 0,
            innings_pitched = fzero, hits_allowed = 2, runs_allowed = 0, earned_runs = 0,
            walks_allowed = 0, pitching_strikeouts = 0, home_runs_allowed = 0, era = fzero,
            whip = fzero\<rparr>])
   \<and> Fin 1 0 \<noteq> fzero
   \<and> calculate_aggregate_stats [huge_hits_game] = Inl OverflowError"
  by code_simp

lemma player_key_resolved: "player_key l = resolved_key l"
  by (simp add: player_key_def resolved_key_def get_field_def split: option.splits)

text \<open>
  Claim C6. The returned OPS is the returned (rounded) on-base percentage plus the returned
  (rounded) slugging percentage, rounded to 3 decimals; these two are the rounded ratios of
  the totals. The witness shows that this is not the sum recomputed from the totals: one
  hit in three at-bats gives \<open>0.333 + 0.333 = 0.666\<close>, where \<^verbatim>\<open>round(1/3 + 1/3, 3)\<close> is
  \<open>0.667\<close>.
\<close>

theorem ops_from_rounded_parts:
  assumes "aggregate_tables gs = Inr (tb, tp)" and "(k, r) \<in> set tb"
  shows "py_round (fadd (on_base_percentage r) (slugging_percentage r)) 3 = Inr (ops r)
       \<and> (0 < at_bats r + walks r \<longrightarrow>
            rounded_ratio (hits r + walks r) (at_bats r + walks r) = Inr (on_base_percentage r))
       \<and> (0 < at_bats r \<longrightarrow> rounded_ratio (total_bases r) (at_bats r) = Inr (slugging_percentage r))"
proof -
  from assms obtain s where s: "batting_averages s = Inr r"
    by (rule batting_entry)
  from batting_averages_Inr [OF s] obtain ba obp slg opv where
    r: "r = s\<lparr>batting_average := ba, on_base_percentage := obp, slugging_percentage := slg, ops := opv\<rparr>"
    and obp: "if 0 < at_bats s + walks s then rounded_ratio (hits s + walks s) (at_bats s + walks s) = Inr obp
              else obp = on_base_percentage s"
    and slg: "if 0 < at_bats s then rounded_ratio (total_bases s) (at_bats s) = Inr slg
              else slg = slugging_percentage s"
    and opv: "py_round (fadd obp slg) 3 = Inr opv"
    by blast
  have tb: "total_bases r = total_bases s" and ab: "at_bats r = at_bats s"
    and w: "walks r = walks s" and h: "hits r = hits s"
    and o: "on_base_percentage r = obp" "slugging_percentage r = slg" "ops r = opv"
    by (simp_all add: r total_bases_def)
  show ?thesis
    unfolding tb ab w h o using obp slg opv by (auto split: if_splits)
qed

theorem ops_from_rounded_parts_witness:
  "aggregate_tables [one_for_three_game] =
     Inr ([(''123'', \<lparr>player_name = ''P'', team = ''Reds'', games = 1, at_bats = 3, hits = 1,
            runs = 0, rbis = 0, doubles = 0, triples = 0, home_runs = 0, walks = 0, strikeouts = 0,
            batting_average = Fin 5998794703657501 (- 54), on_base_percentage = Fin 5998794703657501 (- 54),
            slugging_percentage = Fin 5998794703657501 (- 54),
            ops = Fin 5998794703657501 (- 53)\<rparr>)], [])
   \<and> py_round (fadd (Fin 5998794703657501 (- 54)) (Fin 5998794703657501 (- 54))) 3
        = Inr (Fin 5998794703657501 (- 53))
   \<and> rounded_ratio 1 3 = Inr (Fin 5998794703657501 (- 54))
   \<and> bind (int_truediv 1 3) (\<lambda>a. bind (int_truediv 1 3) (\<lambda>b. py_round (fadd a b) 3))
        = Inr (Fin 3003900951456121 (- 52))"
proof -
  let ?r = "\<lparr>player_name = ''P'', team = ''Reds'', games = 1, at_bats = 3, hits = 1,
            runs = 0, rbis = 0, doubles = 0, triples = 0, home_runs = 0, walks = 0, strikeouts = 0,
            batting_average = Fin 5998794703657501 (- 54), on_base_percentage = Fin 5998794703657501 (- 54),
            slugging_percentage = Fin 5998794703657501 (- 54),
            ops = Fin 5998794703657501 (- 53)\<rparr>"
  have run: "aggregate_tables [one_for_three_game] = Inr ([(''123'', ?r)], [])"
    by code_simp
  have mem: "(''123'', ?r) \<in> set [(''123'', ?r)]"
    by simp
  have raw: "bind (int_truediv 1 3) (\<lambda>a. bind (int_truediv 1 3) (\<lambda>b. py_round (fadd a b) 3))
        = Inr (Fin 3003900951456121 (- 52))"
    by code_simp
  have "0 < at_bats ?r + walks ?r" "0 < at_bats ?r" "total_bases ?r = 1"
    by (simp_all add: total_bases_def)
  with ops_from_rounded_parts [OF run mem] run raw show ?thesis
    by simp
qed

lemma lines_of_key_resolved:
  "lines_of_key k tls = filter (\<lambda>e. resolved_key (snd e) = k) tls"
  by (simp add: lines_of_key_def player_key_resolved)

text \<open>
  Claim C3, as the code has it. The key of a line is its \<^verbatim>\<open>player_id\<close> whenever the line has
  that field, even when the field is the empty string; it is made from the name only
  when the field is absent. The keys of the returned records are the keys of the lines,
  there is one record for each key, and its \<open>games\<close> field counts the lines under it: the
  appearances of an entry without \<^verbatim>\<open>player_id\<close> accumulate under one key.
\<close>

theorem accumulation_key:
  assumes "aggregate_tables gs = Inr (tb, tp)"
  shows "fst ` set tb = (\<lambda>e. resolved_key (snd e)) ` set (batting_lines gs)
       \<and> fst ` set tp = (\<lambda>e. resolved_key (snd e)) ` set (pitching_lines gs)
       \<and> distinct (map fst tb) \<and> distinct (map fst tp)
       \<and> (\<forall>k r. (k, r) \<in> set tb \<longrightarrow>
             games r = int (length (filter (\<lambda>e. resolved_key (snd e) = k) (batting_lines gs))))
       \<and> (\<forall>k r. (k, r) \<in> set tp \<longrightarrow>
             games r = int (length (filter (\<lambda>e. resolved_key (snd e) = k) (pitching_lines gs))))"
proof -
  from assms obtain bs ps where
    runb: "process_tagged add_batting default_batting (batting_lines gs) [] = Inr bs"
    and runp: "process_tagged add_pitching default_pitching (pitching_lines gs) [] = Inr ps"
    and kb: "map fst tb = map fst bs" and kp: "map fst tp = map fst ps"
    by (rule aggregate_tables_Inr)
  have sb: "fst ` set tb = fst ` set bs" and sp: "fst ` set tp = fst ` set ps"
    using kb kp by (metis set_map)+
  have 1: "fst ` set tb = (\<lambda>e. resolved_key (snd e)) ` set (batting_lines gs)"
    using process_tagged_keys [OF runb] by (simp add: sb player_key_resolved)
  have 2: "fst ` set tp = (\<lambda>e. resolved_key (snd e)) ` set (pitching_lines gs)"
    using process_tagged_keys [OF runp] by (simp add: sp player_key_resolved)
  have 3: "distinct (map fst tb)"
    using process_tagged_distinct [OF runb] by (simp add: kb)
  have 4: "distinct (map fst tp)"
    using process_tagged_distinct [OF runp] by (simp add: kp)
  have 5: "\<forall>k r. (k, r) \<in> set tb \<longrightarrow>
             games r = int (length (filter (\<lambda>e. resolved_key (snd e) = k) (batting_lines gs)))"
  proof (intro allI impI)
    fix k r
    assume "(k, r) \<in> set tb"
    with assms obtain bs' s where
      run: "process_tagged add_batting default_batting (batting_lines gs) [] = Inr bs'"
      and s: "map_of bs' k = Some s" "batting_averages s = Inr r"
      by (rule batting_entry)
    have "games (get_field (map_of bs' k) default_batting) =
          games (get_field (map_of [] k) default_batting)
            + sum_list (map (\<lambda>e. 1) (lines_of_key k (batting_lines gs)))"
      by (rule process_tagged_sum [OF _ run]) (rule add_batting_games)
    then have "games s = int (length (lines_of_key k (batting_lines gs)))"
      using s(1) by (simp add: get_field_def default_batting_def sum_list_ones)
    moreover have "games r = games s"
      using batting_averages_Inr [OF s(2)] by auto
    ultimately show "games r = int (length (filter (\<lambda>e. resolved_key (snd e) = k) (batting_lines gs)))"
      by (simp add: lines_of_key_resolved)
  qed
  have 6: "\<forall>k r. (k, r) \<in> set tp \<longrightarrow>
             games r = int (length (filter (\<lambda>e. resolved_key (snd e) = k) (pitching_lines gs)))"
  proof (intro allI impI)
    fix k r
    assume "(k, r) \<in> set tp"
    with assms obtain ps' s where
      run: "process_tagged add_pitching default_pitching (pitching_lines gs) [] = Inr ps'"
      and s: "map_of ps' k = Some s" "pitching_averages s = Inr r"
      by (rule pitching_entry)
    have "games (get_field (map_of ps' k) default_pitching) =
          games (get_field (map_of [] k) default_pitching)
            + sum_list (map (\<lambda>e. 1) (lines_of_key k (pitching_lines gs)))"
      by (rule process_tagged_sum [OF _ run]) (rule add_pitching_games)
    then have "games s = int (length (lines_of_key k (pitching_lines gs)))"
      using s(1) by (simp add: get_field_def default_pitching_def sum_list_ones)
    moreover have "games r = games s"
      using pitching_averages_Inr [OF s(2)] by auto
    ultimately show "games r = int (length (filter (\<lambda>e. resolved_key (snd e) = k) (pitching_lines gs)))"
      by (simp add: lines_of_key_resolved)
  qed
  show ?thesis
    using 1 2 3 4 5 6 by (intro conjI)
qed

theorem accumulation_key_witness:
  "fst ` set [([], \<lparr>player_name = ''Bob'', team = ''Reds'', games = 1, at_bats = 1, hits = 0,
            runs = 0, rbis = 0, doubles = 0, triples = 0, home_runs = 0, walks = 0, strikeouts = 0,
            batting_average = fzero, on_base_percentage = fzero, slugging_percentage = fzero,
            ops = fzero\<rparr>),
          (''unknown_Bob'', \<lparr>player_name = ''Bob'', team = ''Reds'', games = 2, at_bats = 5, hits = 0,
            runs = 0, rbis = 0, doubles = 0, triples = 0, home_runs = 0, walks = 0, strikeouts = 0,
            batting_average = fzero, on_base_percentage = fzero, slugging_percentage = fzero,
            ops = fzero\<rparr>)]
     = (\<lambda>e. resolved_key (snd e)) ` set (batting_lines [blank_id_game])"
proof -
  let ?tb = "[([], \<lparr>player_name = ''Bob'', team = ''Reds'', games = 1, at_bats = 1, hits = 0,
            runs = 0, rbis = 0, doubles = 0, triples = 0, home_runs = 0, walks = 0, strikeouts = 0,
            batting_average = fzero, on_base_percentage = fzero, slugging_percentage = fzero,
            ops = fzero\<rparr>),
          (''unknown_Bob'', \<lparr>player_name = ''Bob'', team = ''Reds'', games = 2, at_bats = 5, hits = 0,
            runs = 0, rbis = 0, doubles = 0, triples = 0, home_runs = 0, walks = 0, strikeouts = 0,
            batting_average = fzero, on_base_percentage = fzero, slugging_percentage = fzero,
            ops = fzero\<rparr>)]"
  have run: "aggregate_tables [blank_id_game] = Inr (?tb, [])"
    by code_simp
  from accumulation_key [OF run] show ?thesis
    by blast
qed

text \<open>
  Claim C3 as stated fails: a line whose \<^verbatim>\<open>player_id\<close> is present and empty is accumulated
  under the empty key, apart from the two lines of the same name that have no
  \<^verbatim>\<open>player_id\<close>.
\<close>

theorem blank_player_id_counterexample:
  "aggregate_tables [blank_id_game] =
     Inr ([([], \<lparr>player_name = ''Bob'', team = ''Reds'', games = 1, at_bats = 1, hits = 0,
            runs = 0, rbis = 0, doubles = 0, triples = 0, home_runs = 0, walks = 0, strikeouts = 0,
            batting_average = fzero, on_base_percentage = fzero, slugging_percentage = fzero,
            ops = fzero\<rparr>),
          (''unknown_Bob'', \<lparr>player_name = ''Bob'', team = ''Reds'', games = 2, at_bats = 5, hits = 0,
            runs = 0, rbis = 0, doubles = 0, triples = 0, home_runs = 0, walks = 0, strikeouts = 0,
            batting_average = fzero, on_base_percentage = fzero, slugging_percentage = fzero,
            ops = fzero\<rparr>)], [])"
  by code_simp

lemma float_of_zero: "float_of_int 0 = Inr fzero"
  by (simp add: float_of_int_def rnd64_def finite_or_overflow_def)

lemma missing_field_defaults:
  assumes "map_of (box l) k = None"
  shows "int_field l k = Inr 0" and "py_float (dict_get (box l) k (PInt 0)) = Inr fzero"
  using assms by (simp_all add: int_field_def dict_get_def float_of_zero)

lemma bad_int_field:
  assumes "map_of (box l) k = Some (PStr s)" and "py_int_of_str s = None"
  shows "\<not> int_ok l k"
  using assms by (simp add: int_ok_def int_field_def dict_get_def)

lemma add_batting_Inl:
  assumes "add_batting l s = Inl err"
  shows "\<exists>k \<in> set batting_keys. int_field l k = Inl err"
  using assms unfolding add_batting_def batting_keys_def
  by (auto simp: bind_def split: sum.splits)

lemma add_pitching_Inl:
  assumes "add_pitching l s = Inl err"
  shows "(\<exists>k \<in> set pitching_keys. int_field l k = Inl err)
       \<or> py_float (dict_get (box l) ''innings_pitched'' (PInt 0)) = Inl err"
  using assms unfolding add_pitching_def pitching_keys_def
  by (auto simp: bind_def split: sum.splits)

lemma process_tagged_Inl:
  assumes "process_tagged add dflt tls d = Inl err"
  shows "\<exists>e \<in> set tls. \<exists>s. add (snd e) s = Inl err"
  using assms
proof (induction tls arbitrary: d)
  case Nil
  then show ?case by simp
next
  case (Cons e rest)
  show ?case
  proof (cases "process_line add dflt (fst e) (snd e) d")
    case (Inl err')
    then have "err' = err"
      using Cons.prems by simp
    then have "\<exists>s. add (snd e) s = Inl err"
      using Inl by (auto simp: process_line_touched bind_def split: sum.splits)
    then show ?thesis by simp
  next
    case (Inr d')
    then have "process_tagged add dflt rest d' = Inl err"
      using Cons.prems by simp
    then show ?thesis
      using Cons.IH by auto
  qed
qed

lemma process_games_Inl:
  assumes "process_games gs b p = Inl err"
  shows "(\<exists>e \<in> set (batting_lines gs). \<exists>s. add_batting (snd e) s = Inl err)
       \<or> (\<exists>e \<in> set (pitching_lines gs). \<exists>s. add_pitching (snd e) s = Inl err)"
  using assms
proof (induction gs arbitrary: b p)
  case Nil
  then show ?case by simp
next
  case (Cons g gs)
  have bl: "set (batting_lines (g # gs)) = set (game_batting_lines g) \<union> set (batting_lines gs)"
    by (simp add: batting_lines_def)
  have pl: "set (pitching_lines (g # gs)) = set (game_pitching_lines g) \<union> set (pitching_lines gs)"
    by (simp add: pitching_lines_def)
  show ?case
  proof (cases "process_game_batting_stats g b")
    case (Inl err')
    then have "process_tagged add_batting default_batting (game_batting_lines g) b = Inl err"
      using Cons.prems by (simp add: process_game_batting_tagged)
    then show ?thesis
      using process_tagged_Inl [of add_batting default_batting "game_batting_lines g" b err] bl
      by blast
  next
    case b1: (Inr b1)
    show ?thesis
    proof (cases "process_game_pitching_stats g p")
      case (Inl err')
      then have "process_tagged add_pitching default_pitching (game_pitching_lines g) p = Inl err"
        using Cons.prems b1 by (simp add: process_game_pitching_tagged)
      then show ?thesis
        using process_tagged_Inl [of add_pitching default_pitching "game_pitching_lines g" p err] pl
        by blast
    next
      case (Inr p1)
      then have "process_games gs b1 p1 = Inl err"
        using Cons.prems b1 by simp
      then show ?thesis
        using Cons.IH [of b1 p1] bl pl by blast
    qed
  qed
qed

lemma accumulation_raises:
  assumes "process_games gs [] [] = Inl err"
  shows "calculate_aggregate_stats gs = Inl err \<and> raised_by_conversion gs err"
proof -
  have "raised_by_conversion gs err"
    using process_games_Inl [OF assms] add_batting_Inl add_pitching_Inl
    unfolding raised_by_conversion_def by meson
  then show ?thesis
    using assms by (simp add: calculate_aggregate_stats_def)
qed

lemma aggregate_aborts_batting:
  assumes "e \<in> set (batting_lines gs)" and "\<not> batting_ok (snd e)"
  shows "\<exists>err. calculate_aggregate_stats gs = Inl err \<and> raised_by_conversion gs err"
proof -
  have "\<not> (\<exists>d'. process_tagged add_batting default_batting (batting_lines gs) [] = Inr d')"
    using assms process_tagged_success [of add_batting batting_ok default_batting "batting_lines gs" "[]"]
      add_batting_ok by blast
  then have "\<not> (\<exists>acc. process_games gs [] [] = Inr acc)"
    using process_games_Inr [of gs "[]" "[]"] by auto
  then obtain err where "process_games gs [] [] = Inl err"
    by (cases "process_games gs [] []") auto
  then show ?thesis
    using accumulation_raises by blast
qed

lemma aggregate_aborts_pitching:
  assumes "e \<in> set (pitching_lines gs)" and "\<not> pitching_ok (snd e)"
  shows "\<exists>err. calculate_aggregate_stats gs = Inl err \<and> raised_by_conversion gs err"
proof -
  have "\<not> (\<exists>d'. process_tagged add_pitching default_pitching (pitching_lines gs) [] = Inr d')"
    using assms process_tagged_success [of add_pitching pitching_ok default_pitching "pitching_lines gs" "[]"]
      add_pitching_ok by blast
  then have "\<not> (\<exists>acc. process_games gs [] [] = Inr acc)"
    using process_games_Inr [of gs "[]" "[]"] by auto
  then obtain err where "process_games gs [] [] = Inl err"
    by (cases "process_games gs [] []") auto
  then show ?thesis
    using accumulation_raises by blast
qed

text \<open>
  Claim C1, as the code has it. A numeric field that a line does not have counts as \<open>0\<close>
  (\<open>0.0\<close> for the innings) and raises nothing. A field that is present is converted by
  \<^verbatim>\<open>int\<close> or \<^verbatim>\<open>float\<close>, which raise \<^verbatim>\<open>ValueError\<close> on a string they reject, and nothing
  catches what they raise: when a batting or pitching line of any game holds, in a counting
  field, a string that \<^verbatim>\<open>int\<close> rejects, or in \<^verbatim>\<open>innings_pitched\<close> a string that \<^verbatim>\<open>float\<close>
  rejects, \<^verbatim>\<open>calculate_aggregate_stats\<close> returns nothing for any game or player: it raises,
  and the exception is the one that the conversion of a field of some line raised. (The
  strings are ASCII text of at most 4300 characters.)
\<close>

theorem malformed_field_aborts:
  "(\<forall>l k. map_of (box l) k = None \<longrightarrow>
       int_field l k = Inr 0 \<and> py_float (dict_get (box l) k (PInt 0)) = Inr fzero)
   \<and> (\<forall>l k s. map_of (box l) k = Some (PStr s) \<and> plain_text s \<and> py_int_of_str s = None
       \<longrightarrow> int_field l k = Inl ValueError)
   \<and> (\<forall>l k s. map_of (box l) k = Some (PStr s) \<and> plain_text s \<and> py_float_of_str s = None
       \<longrightarrow> py_float (dict_get (box l) k (PInt 0)) = Inl ValueError)
   \<and> (\<forall>gs e k s. e \<in> set (batting_lines gs) \<and> k \<in> set batting_keys
         \<and> map_of (box (snd e)) k = Some (PStr s) \<and> plain_text s \<and> py_int_of_str s = None
       \<longrightarrow> (\<exists>err. calculate_aggregate_stats gs = Inl err \<and> raised_by_conversion gs err))
   \<and> (\<forall>gs e k s. e \<in> set (pitching_lines gs) \<and> k \<in> set pitching_keys
         \<and> map_of (box (snd e)) k = Some (PStr s) \<and> plain_text s \<and> py_int_of_str s = None
       \<longrightarrow> (\<exists>err. calculate_aggregate_stats gs = Inl err \<and> raised_by_conversion gs err))
   \<and> (\<forall>gs e s. e \<in> set (pitching_lines gs)
         \<and> map_of (box (snd e)) ''innings_pitched'' = Some (PStr s) \<and> plain_text s
         \<and> py_float_of_str s = None
       \<longrightarrow> (\<exists>err. calculate_aggregate_stats gs = Inl err \<and> raised_by_conversion gs err))"
proof -
  have 1: "\<forall>l k. map_of (box l) k = None \<longrightarrow>
       int_field l k = Inr 0 \<and> py_float (dict_get (box l) k (PInt 0)) = Inr fzero"
    using missing_field_defaults by blast
  have ia: "\<forall>l k s. map_of (box l) k = Some (PStr s) \<and> plain_text s \<and> py_int_of_str s = None
       \<longrightarrow> int_field l k = Inl ValueError"
    by (simp add: int_field_def dict_get_def)
  have ib: "\<forall>l k s. map_of (box l) k = Some (PStr s) \<and> plain_text s \<and> py_float_of_str s = None
       \<longrightarrow> py_float (dict_get (box l) k (PInt 0)) = Inl ValueError"
    by (simp add: dict_get_def)
  have 2: "\<forall>gs e k s. e \<in> set (batting_lines gs) \<and> k \<in> set batting_keys
         \<and> map_of (box (snd e)) k = Some (PStr s) \<and> plain_text s \<and> py_int_of_str s = None
       \<longrightarrow> (\<exists>err. calculate_aggregate_stats gs = Inl err \<and> raised_by_conversion gs err)"
  proof (intro allI impI, elim conjE)
    fix gs e k s
    assume e: "e \<in> set (batting_lines gs)" and k: "k \<in> set batting_keys"
      and v: "map_of (box (snd e)) k = Some (PStr s)" "py_int_of_str s = None"
    have "\<not> batting_ok (snd e)"
      using bad_int_field [OF v] k by (auto simp: batting_ok_def)
    then show "\<exists>err. calculate_aggregate_stats gs = Inl err \<and> raised_by_conversion gs err"
      by (rule aggregate_aborts_batting [OF e])
  qed
  have 3: "\<forall>gs e k s. e \<in> set (pitching_lines gs) \<and> k \<in> set pitching_keys
         \<and> map_of (box (snd e)) k = Some (PStr s) \<and> plain_text s \<and> py_int_of_str s = None
       \<longrightarrow> (\<exists>err. calculate_aggregate_stats gs = Inl err \<and> raised_by_conversion gs err)"
  proof (intro allI impI, elim conjE)
    fix gs e k s
    assume e: "e \<in> set (pitching_lines gs)" and k: "k \<in> set pitching_keys"
      and v: "map_of (box (snd e)) k = Some (PStr s)" "py_int_of_str s = None"
    have "\<not> pitching_ok (snd e)"
      using bad_int_field [OF v] k by (auto simp: pitching_ok_def)
    then show "\<exists>err. calculate_aggregate_stats gs = Inl err \<and> raised_by_conversion gs err"
      by (rule aggregate_aborts_pitching [OF e])
  qed
  have 4: "\<forall>gs e s. e \<in> set (pitching_lines gs)
         \<and> map_of (box (snd e)) ''innings_pitched'' = Some (PStr s) \<and> plain_text s
         \<and> py_float_of_str s = None
       \<longrightarrow> (\<exists>err. calculate_aggregate_stats gs = Inl err \<and> raised_by_conversion gs err)"
  proof (intro allI impI, elim conjE)
    fix gs e s
    assume e: "e \<in> set (pitching_lines gs)"
      and v: "map_of (box (snd e)) ''innings_pitched'' = Some (PStr s)" "py_float_of_str s = None"
    have "\<not> pitching_ok (snd e)"
      using v by (simp add: pitching_ok_def dict_get_def)
    then show "\<exists>err. calculate_aggregate_stats gs = Inl err \<and> raised_by_conversion gs err"
      by (rule aggregate_aborts_pitching [OF e])
  qed
  show ?thesis
    using 1 ia ib 2 3 4 by (intro conjI)
qed

theorem malformed_field_aborts_witness:
  "int_field \<lparr>player_id = Some ''7'', name = Some ''R'', box = [(''at_bats'', PStr ''abc'')]\<rparr> ''hits'' = Inr 0
   \<and> int_field \<lparr>player_id = Some ''7'', name = Some ''R'', box = [(''at_bats'', PStr ''abc'')]\<rparr> ''at_bats''
       = Inl ValueError
   \<and> (\<exists>err. calculate_aggregate_stats [corrupt_game, one_for_three_game] = Inl err
         \<and> raised_by_conversion [corrupt_game, one_for_three_game] err)
   \<and> (\<exists>err. calculate_aggregate_stats [one_for_three_game, corrupt_pitching_game] = Inl err
         \<and> raised_by_conversion [one_for_three_game, corrupt_pitching_game] err)"
proof -
  let ?l = "\<lparr>player_id = Some ''7'', name = Some ''R'', box = [(''at_bats'', PStr ''abc'')]\<rparr>"
  let ?p = "\<lparr>player_id = Some ''9'', name = Some ''Q'',
            box = [(''earned_runs'', PStr ''x''), (''innings_pitched'', PStr ''six'')]\<rparr>"
  note t = malformed_field_aborts
  have h1: "map_of (box ?l) ''hits'' = None"
    by simp
  have h1a: "map_of (box ?l) ''at_bats'' = Some (PStr ''abc'') \<and> plain_text ''abc''
            \<and> py_int_of_str ''abc'' = None"
    by code_simp
  have h2: "(''Reds'', ?l) \<in> set (batting_lines [corrupt_game, one_for_three_game])
            \<and> ''at_bats'' \<in> set batting_keys
            \<and> map_of (box (snd (''Reds'', ?l))) ''at_bats'' = Some (PStr ''abc'')
            \<and> plain_text ''abc'' \<and> py_int_of_str ''abc'' = None"
    by code_simp
  have h3: "(''Cubs'', ?p) \<in> set (pitching_lines [one_for_three_game, corrupt_pitching_game])
            \<and> ''earned_runs'' \<in> set pitching_keys
            \<and> map_of (box (snd (''Cubs'', ?p))) ''earned_runs'' = Some (PStr ''x'')
            \<and> plain_text ''x'' \<and> py_int_of_str ''x'' = None"
    by code_simp
  have h4: "(''Cubs'', ?p) \<in> set (pitching_lines [one_for_three_game, corrupt_pitching_game])
            \<and> map_of (box (snd (''Cubs'', ?p))) ''innings_pitched'' = Some (PStr ''six'')
            \<and> plain_text ''six'' \<and> py_float_of_str ''six'' = None"
    by code_simp
  have r1: "int_field ?l ''hits'' = Inr 0"
    using t h1 by blast
  have r1a: "int_field ?l ''at_bats'' = Inl ValueError"
    using t h1a by blast
  have r2: "\<exists>err. calculate_aggregate_stats [corrupt_game, one_for_three_game] = Inl err
         \<and> raised_by_conversion [corrupt_game, one_for_three_game] err"
    using t h2 by blast
  have r3: "\<exists>err. calculate_aggregate_stats [one_for_three_game, corrupt_pitching_game] = Inl err
         \<and> raised_by_conversion [one_for_three_game, corrupt_pitching_game] err"
    using t h3 by blast
  have r4: "\<exists>err. calculate_aggregate_stats [one_for_three_game, corrupt_pitching_game] = Inl err
         \<and> raised_by_conversion [one_for_three_game, corrupt_pitching_game] err"
    using t h4 by blast
  show ?thesis
    using r1 r1a r2 r3 r4 by (intro conjI)
qed

text \<open>
  Claim C1 as stated fails: one line whose \<^verbatim>\<open>at_bats\<close> is the string \<^verbatim>\<open>abc\<close> makes the call
  raise \<^verbatim>\<open>ValueError\<close>, although the other game alone is aggregated.
\<close>

theorem corrupt_line_counterexample:
  "calculate_aggregate_stats [corrupt_game, one_for_three_game] = Inl ValueError
   \<and> calculate_aggregate_stats [one_for_three_game] =
     Inr ([\<lparr>player_name = ''P'', team = ''Reds'', games = 1, at_bats = 3, hits = 1,
            runs = 0, rbis = 0, doubles = 0, triples = 0, home_runs = 0, walks = 0, strikeouts = 0,
            batting_average = Fin 5998794703657501 (- 54), on_base_percentage = Fin 5998794703657501 (- 54),
            slugging_percentage = Fin 5998794703657501 (- 54),
            ops = Fin 5998794703657501 (- 53)\<rparr>], [])"
  by code_simp

section \<open>The order of the games\<close>

lemma add_batting_field:
  assumes "add_batting l (touched t l s) = Inr s'"
  shows "batting_field k s' = batting_field k s + (if k \<in> set batting_keys then field_value l k else 0)"
  unfolding add_batting_Inr [OF assms]
  by (simp add: batting_field_def batting_keys_def touched_def)

lemma add_pitching_field:
  assumes "add_pitching l (touched t l s) = Inr s'"
  shows "pitching_field k s' = pitching_field k s + (if k \<in> set pitching_keys then field_value l k else 0)"
  unfolding add_pitching_Inr [OF assms]
  by (simp add: pitching_field_def pitching_keys_def touched_def)

lemma mset_game_lines:
  assumes "mset gs' = mset gs"
  shows "mset (concat (map f gs')) = mset (concat (map f gs))"
proof -
  have "mset (concat (map f xs)) = sum_mset (image_mset (\<lambda>g. mset (f g)) (mset xs))" for xs
    by (induction xs) auto
  then show ?thesis
    using assms by simp
qed

lemma mset_lines_of_key:
  assumes "mset tls' = mset tls"
  shows "mset (lines_of_key k tls') = mset (lines_of_key k tls)"
  using assms by (simp add: lines_of_key_def)

lemma sum_list_perm:
  fixes D :: "'a \<Rightarrow> int"
  assumes "mset xs = mset ys"
  shows "sum_list (map D xs) = sum_list (map D ys)"
proof -
  have "sum_list (map D zs) = sum_mset (image_mset D (mset zs))" for zs
    by (induction zs) auto
  then show ?thesis
    using assms by simp
qed

lemma key_sum_perm:
  fixes D :: "string \<times> player_line \<Rightarrow> int"
  assumes "mset tls' = mset tls"
  shows "sum_list (map D (lines_of_key k tls')) = sum_list (map D (lines_of_key k tls))"
  by (rule sum_list_perm) (rule mset_lines_of_key [OF assms])

lemma batting_stat_fields:
  fixes s s' :: batting_stat
  assumes "\<forall>k. batting_field k s' = batting_field k s" and "games s' = games s"
    and "derived_zero s" and "derived_zero s'"
  shows "s' = s\<lparr>player_name := player_name s', team := team s'\<rparr>"
proof -
  have "at_bats s' = at_bats s" "hits s' = hits s" "runs s' = runs s" "rbis s' = rbis s"
    "doubles s' = doubles s" "triples s' = triples s" "home_runs s' = home_runs s"
    "walks s' = walks s" "strikeouts s' = strikeouts s"
    using assms(1) [rule_format, of "''at_bats''"] assms(1) [rule_format, of "''hits''"]
      assms(1) [rule_format, of "''runs''"] assms(1) [rule_format, of "''rbis''"]
      assms(1) [rule_format, of "''doubles''"] assms(1) [rule_format, of "''triples''"]
      assms(1) [rule_format, of "''home_runs''"] assms(1) [rule_format, of "''walks''"]
      assms(1) [rule_format, of "''strikeouts''"]
    by (simp_all add: batting_field_def)
  then show ?thesis
    using assms(2,3,4) by (simp add: derived_zero_def)
qed

lemma batting_averages_rename:
  assumes "batting_averages s = Inr r"
  shows "batting_averages (s\<lparr>player_name := n, team := t\<rparr>) = Inr (r\<lparr>player_name := n, team := t\<rparr>)"
proof -
  from assms obtain s1 s2 s3 where
    1: "set_batting_average s = Inr s1" and 2: "set_on_base_percentage s1 = Inr s2"
    and 3: "set_slugging_percentage s2 = Inr s3" and 4: "set_ops s3 = Inr r"
    unfolding batting_averages_def bind_eq_Inr by blast
  have 1: "set_batting_average (s\<lparr>player_name := n, team := t\<rparr>) = Inr (s1\<lparr>player_name := n, team := t\<rparr>)"
    using 1 by (auto simp: set_batting_average_def bind_eq_Inr split: if_splits)
  have 2: "set_on_base_percentage (s1\<lparr>player_name := n, team := t\<rparr>) = Inr (s2\<lparr>player_name := n, team := t\<rparr>)"
    using 2 by (auto simp: set_on_base_percentage_def bind_eq_Inr split: if_splits)
  have 3: "set_slugging_percentage (s2\<lparr>player_name := n, team := t\<rparr>) = Inr (s3\<lparr>player_name := n, team := t\<rparr>)"
    using 3 by (auto simp: set_slugging_percentage_def bind_eq_Inr total_bases_def split: if_splits)
  have 4: "set_ops (s3\<lparr>player_name := n, team := t\<rparr>) = Inr (r\<lparr>player_name := n, team := t\<rparr>)"
    using 4 by (auto simp: set_ops_def bind_eq_Inr)
  show ?thesis
    by (simp add: batting_averages_def 1 2 3 4)
qed

lemma list_all2_exists:
  assumes "\<forall>x \<in> set xs. \<exists>y. R x y"
  shows "\<exists>ys. list_all2 R xs ys"
  using assms
proof (induction xs)
  case Nil
  show ?case by simp
next
  case (Cons x xs)
  then obtain y ys where "R x y" "list_all2 R xs ys"
    by auto
  then have "list_all2 R (x # xs) (y # ys)"
    by simp
  then show ?case by blast
qed

lemma batting_accumulated_perm:
  assumes perm: "mset tls' = mset tls"
    and run: "process_tagged add_batting default_batting tls [] = Inr bs"
    and run': "process_tagged add_batting default_batting tls' [] = Inr bs'"
    and s: "(k, s) \<in> set bs" and s': "(k, s') \<in> set bs'"
  shows "s' = s\<lparr>player_name := player_name s', team := team s'\<rparr>"
proof -
  have m: "map_of bs k = Some s" "map_of bs' k = Some s'"
    using accumulated_entry(1) [OF run s] accumulated_entry(1) [OF run' s'] .
  have f: "batting_field key s' = batting_field key s" for key
  proof -
    let ?D = "\<lambda>l. if key \<in> set batting_keys then field_value l key else 0"
    have "batting_field key (get_field (map_of bs k) default_batting) =
          batting_field key (get_field (map_of [] k) default_batting)
            + sum_list (map (\<lambda>e. ?D (snd e)) (lines_of_key k tls))"
      by (rule process_tagged_sum [OF _ run]) (rule add_batting_field)
    moreover have "batting_field key (get_field (map_of bs' k) default_batting) =
          batting_field key (get_field (map_of [] k) default_batting)
            + sum_list (map (\<lambda>e. ?D (snd e)) (lines_of_key k tls'))"
      by (rule process_tagged_sum [OF _ run']) (rule add_batting_field)
    ultimately show ?thesis
      using key_sum_perm [OF perm, of "\<lambda>e. ?D (snd e)" k] m by (simp add: get_field_def)
  qed
  have g: "games s' = games s"
  proof -
    have "games (get_field (map_of bs k) default_batting) =
          games (get_field (map_of [] k) default_batting)
            + sum_list (map (\<lambda>e. 1) (lines_of_key k tls))"
      by (rule process_tagged_sum [OF _ run]) (rule add_batting_games)
    moreover have "games (get_field (map_of bs' k) default_batting) =
          games (get_field (map_of [] k) default_batting)
            + sum_list (map (\<lambda>e. 1) (lines_of_key k tls'))"
      by (rule process_tagged_sum [OF _ run']) (rule add_batting_games)
    ultimately show ?thesis
      using key_sum_perm [OF perm, of "\<lambda>e. 1" k] m by (simp add: get_field_def)
  qed
  show ?thesis
    by (rule batting_stat_fields) (use f g batting_derived_zero [OF run s] batting_derived_zero [OF run' s'] in auto)
qed

lemma pitching_accumulated_perm:
  assumes perm: "mset tls' = mset tls"
    and run: "process_tagged add_pitching default_pitching tls [] = Inr ps"
    and run': "process_tagged add_pitching default_pitching tls' [] = Inr ps'"
    and s: "(k, s) \<in> set ps" and s': "(k, s') \<in> set ps'"
  shows "games s' = games s \<and> (\<forall>key. pitching_field key s' = pitching_field key s)"
proof -
  have m: "map_of ps k = Some s" "map_of ps' k = Some s'"
    using accumulated_entry(1) [OF run s] accumulated_entry(1) [OF run' s'] .
  have f: "pitching_field key s' = pitching_field key s" for key
  proof -
    let ?D = "\<lambda>l. if key \<in> set pitching_keys then field_value l key else 0"
    have "pitching_field key (get_field (map_of ps k) default_pitching) =
          pitching_field key (get_field (map_of [] k) default_pitching)
            + sum_list (map (\<lambda>e. ?D (snd e)) (lines_of_key k tls))"
      by (rule process_tagged_sum [OF _ run]) (rule add_pitching_field)
    moreover have "pitching_field key (get_field (map_of ps' k) default_pitching) =
          pitching_field key (get_field (map_of [] k) default_pitching)
            + sum_list (map (\<lambda>e. ?D (snd e)) (lines_of_key k tls'))"
      by (rule process_tagged_sum [OF _ run']) (rule add_pitching_field)
    ultimately show ?thesis
      using key_sum_perm [OF perm, of "\<lambda>e. ?D (snd e)" k] m by (simp add: get_field_def)
  qed
  have g: "games s' = games s"
  proof -
    have "games (get_field (map_of ps k) default_pitching) =
          games (get_field (map_of [] k) default_pitching)
            + sum_list (map (\<lambda>e. 1) (lines_of_key k tls))"
      by (rule process_tagged_sum [OF _ run]) (rule add_pitching_games)
    moreover have "games (get_field (map_of ps' k) default_pitching) =
          games (get_field (map_of [] k) default_pitching)
            + sum_list (map (\<lambda>e. 1) (lines_of_key k tls'))"
      by (rule process_tagged_sum [OF _ run']) (rule add_pitching_games)
    ultimately show ?thesis
      using key_sum_perm [OF perm, of "\<lambda>e. 1" k] m by (simp add: get_field_def)
  qed
  show ?thesis
    using f g by blast
qed

lemma accumulate_perm:
  assumes perm: "mset gs' = mset gs" and run: "process_games gs [] [] = Inr (bs, ps)"
  shows "\<exists>bs' ps'. process_games gs' [] [] = Inr (bs', ps')"
proof -
  have b: "process_tagged add_batting default_batting (batting_lines gs) [] = Inr bs"
    and p: "process_tagged add_pitching default_pitching (pitching_lines gs) [] = Inr ps"
    using run by (simp_all add: process_games_Inr)
  have sb: "set (batting_lines gs') = set (batting_lines gs)"
    using mset_game_lines [OF perm, of game_batting_lines] by (metis batting_lines_def mset_eq_setD)
  have sp: "set (pitching_lines gs') = set (pitching_lines gs)"
    using mset_game_lines [OF perm, of game_pitching_lines] by (metis pitching_lines_def mset_eq_setD)
  have "\<forall>e \<in> set (batting_lines gs). batting_ok (snd e)"
    using b process_tagged_success [of add_batting batting_ok default_batting "batting_lines gs" "[]"]
      add_batting_ok by blast
  then have "\<exists>bs'. process_tagged add_batting default_batting (batting_lines gs') [] = Inr bs'"
    using process_tagged_success [of add_batting batting_ok default_batting "batting_lines gs'" "[]"]
      add_batting_ok sb by blast
  moreover have "\<forall>e \<in> set (pitching_lines gs). pitching_ok (snd e)"
    using p process_tagged_success [of add_pitching pitching_ok default_pitching "pitching_lines gs" "[]"]
      add_pitching_ok by blast
  then have "\<exists>ps'. process_tagged add_pitching default_pitching (pitching_lines gs') [] = Inr ps'"
    using process_tagged_success [of add_pitching pitching_ok default_pitching "pitching_lines gs'" "[]"]
      add_pitching_ok sp by blast
  ultimately show ?thesis
    by (auto simp: process_games_Inr)
qed

lemma batting_averages_perm_entry:
  assumes mb: "mset tls' = mset tls"
    and runb: "process_tagged add_batting default_batting tls [] = Inr bs"
    and runb': "process_tagged add_batting default_batting tls' [] = Inr bs'"
    and relb: "list_all2 (\<lambda>e r. batting_averages (snd e) = Inr r) bs bl"
    and keys_b: "fst ` set bs' = fst ` set bs"
    and e: "e \<in> set bs'"
  shows "\<exists>r'. batting_averages (snd e) = Inr r'"
proof -
  have "fst e \<in> fst ` set bs'"
    using e by (rule imageI)
  then have "fst e \<in> fst ` set bs"
    unfolding keys_b .
  then obtain x where x: "x \<in> set bs" "fst e = fst x"
    by (rule imageE)
  define s where "s = snd x"
  have s: "(fst e, s) \<in> set bs"
    unfolding s_def x(2) using x(1) by simp
  from table_entry_target [OF relb s] obtain r where r: "batting_averages s = Inr r"
    by blast
  have "(fst e, snd e) \<in> set bs'"
    using e by simp
  note same = batting_accumulated_perm [OF mb runb runb' s this]
  define n where "n = player_name (snd e)"
  define t where "t = team (snd e)"
  have eq: "snd e = s\<lparr>player_name := n, team := t\<rparr>"
    unfolding n_def t_def by (rule same)
  have "batting_averages (s\<lparr>player_name := n, team := t\<rparr>) = Inr (r\<lparr>player_name := n, team := t\<rparr>)"
    by (rule batting_averages_rename [OF r])
  then have "batting_averages (snd e) = Inr (r\<lparr>player_name := n, team := t\<rparr>)"
    by (simp only: eq [symmetric])
  then show ?thesis
    by (rule exI)
qed

text \<open>
  Claim C5, as the code has it. Let \<open>gs'\<close> be a permutation of \<open>gs\<close>, and let the call return
  on \<open>gs\<close>. Then the accumulation and the batting statistics return on \<open>gs'\<close> too, and
  where the call returns on \<open>gs'\<close> it has the same keys; the batting record of a key is the
  same but for \<open>player_name\<close> and \<open>team\<close> (all counting totals and all four derived
  statistics), and the pitching record of a key has the same \<open>games\<close> and the same integer
  totals. The sum of the innings, and with it the ERA and the WHIP, is left out: floats
  are added in the order of the games.
\<close>

theorem totals_independent_of_game_order:
  assumes "mset gs' = mset gs" and "aggregate_tables gs = Inr (tb, tp)"
  shows "(\<exists>acc' bl'. process_games gs' [] [] = Inr acc' \<and> calculate_batting_averages (fst acc') = Inr bl')
       \<and> (\<forall>tb' tp'. aggregate_tables gs' = Inr (tb', tp') \<longrightarrow>
            fst ` set tb' = fst ` set tb \<and> fst ` set tp' = fst ` set tp
            \<and> (\<forall>k r r'. (k, r) \<in> set tb \<and> (k, r') \<in> set tb' \<longrightarrow>
                  r' = r\<lparr>player_name := player_name r', team := team r'\<rparr>)
            \<and> (\<forall>k r r'. (k, r) \<in> set tp \<and> (k, r') \<in> set tp' \<longrightarrow>
                  games r' = games r \<and> (\<forall>key. pitching_field key r' = pitching_field key r)))"
proof -
  from assms(2) obtain bs ps where
    runb: "process_tagged add_batting default_batting (batting_lines gs) [] = Inr bs"
    and runp: "process_tagged add_pitching default_pitching (pitching_lines gs) [] = Inr ps"
    and relb: "list_all2 (\<lambda>e r. batting_averages (snd e) = Inr r) bs (map snd tb)"
    and relp: "list_all2 (\<lambda>e r. pitching_averages (snd e) = Inr r) ps (map snd tp)"
    and tb: "tb = zip (map fst bs) (map snd tb)" and tp: "tp = zip (map fst ps) (map snd tp)"
    and kb: "map fst tb = map fst bs" and kp: "map fst tp = map fst ps"
    by (rule aggregate_tables_Inr)
  have mb: "mset (batting_lines gs') = mset (batting_lines gs)"
    unfolding batting_lines_def by (rule mset_game_lines [OF assms(1)])
  have mp: "mset (pitching_lines gs') = mset (pitching_lines gs)"
    unfolding pitching_lines_def by (rule mset_game_lines [OF assms(1)])
  have sb: "set (batting_lines gs') = set (batting_lines gs)"
    using mb by (rule mset_eq_setD)
  have sp: "set (pitching_lines gs') = set (pitching_lines gs)"
    using mp by (rule mset_eq_setD)
  have acc: "process_games gs [] [] = Inr (bs, ps)"
    using runb runp by (simp add: process_games_Inr)
  from accumulate_perm [OF assms(1) acc] obtain bs' ps' where
    acc': "process_games gs' [] [] = Inr (bs', ps')"
    by blast
  then have runb': "process_tagged add_batting default_batting (batting_lines gs') [] = Inr bs'"
    and runp': "process_tagged add_pitching default_pitching (pitching_lines gs') [] = Inr ps'"
    by (simp_all add: process_games_Inr)
  have keys_b: "fst ` set bs' = fst ` set bs"
    using process_tagged_keys [OF runb] process_tagged_keys [OF runb'] sb by simp
  have keys_p: "fst ` set ps' = fst ` set ps"
    using process_tagged_keys [OF runp] process_tagged_keys [OF runp'] sp by simp
  have "\<forall>e \<in> set bs'. \<exists>r'. batting_averages (snd e) = Inr r'"
    using batting_averages_perm_entry [OF mb runb runb' relb keys_b] by blast
  from list_all2_exists [OF this] obtain bl' where
    "calculate_batting_averages bs' = Inr bl'"
    unfolding calculate_batting_averages_Inr by blast
  with acc' have first: "\<exists>acc' bl'. process_games gs' [] [] = Inr acc' \<and> calculate_batting_averages (fst acc') = Inr bl'"
    by (intro exI [of _ "(bs', ps')"] exI [of _ bl']) simp
  have second: "\<forall>tb' tp'. aggregate_tables gs' = Inr (tb', tp') \<longrightarrow>
            fst ` set tb' = fst ` set tb \<and> fst ` set tp' = fst ` set tp
            \<and> (\<forall>k r r'. (k, r) \<in> set tb \<and> (k, r') \<in> set tb' \<longrightarrow>
                  r' = r\<lparr>player_name := player_name r', team := team r'\<rparr>)
            \<and> (\<forall>k r r'. (k, r) \<in> set tp \<and> (k, r') \<in> set tp' \<longrightarrow>
                  games r' = games r \<and> (\<forall>key. pitching_field key r' = pitching_field key r))"
  proof (intro allI impI)
    fix tb' tp'
    assume tabs': "aggregate_tables gs' = Inr (tb', tp')"
    from tabs' obtain bs2 ps2 where
      runb2: "process_tagged add_batting default_batting (batting_lines gs') [] = Inr bs2"
      and runp2: "process_tagged add_pitching default_pitching (pitching_lines gs') [] = Inr ps2"
      and kb2: "map fst tb' = map fst bs2" and kp2: "map fst tp' = map fst ps2"
      by (rule aggregate_tables_Inr)
    have eqs: "bs2 = bs'" "ps2 = ps'"
      using runb2 runp2 runb' runp' by simp_all
    have "set (map fst tb') = set (map fst bs')" "set (map fst tb) = set (map fst bs)"
      "set (map fst tp') = set (map fst ps')" "set (map fst tp) = set (map fst ps)"
      by (simp_all only: kb kb2 kp kp2 eqs)
    then have k1: "fst ` set tb' = fst ` set tb" and k2: "fst ` set tp' = fst ` set tp"
      using keys_b keys_p by (simp_all only: set_map)
    have b: "\<forall>k r r'. (k, r) \<in> set tb \<and> (k, r') \<in> set tb' \<longrightarrow>
                  r' = r\<lparr>player_name := player_name r', team := team r'\<rparr>"
    proof (intro allI impI, elim conjE)
      fix k r r'
      assume m: "(k, r) \<in> set tb" and m': "(k, r') \<in> set tb'"
      from assms(2) m obtain bs0 s where
        0: "process_tagged add_batting default_batting (batting_lines gs) [] = Inr bs0"
        and s: "(k, s) \<in> set bs0" "batting_averages s = Inr r"
        by (rule batting_entry)
      from tabs' m' obtain bs1 s' where
        1: "process_tagged add_batting default_batting (batting_lines gs') [] = Inr bs1"
        and s': "(k, s') \<in> set bs1" "batting_averages s' = Inr r'"
        by (rule batting_entry)
      note same = batting_accumulated_perm [OF mb 0 1 s(1) s'(1)]
      define n where "n = player_name s'"
      define t where "t = team s'"
      have eq: "s' = s\<lparr>player_name := n, team := t\<rparr>"
        unfolding n_def t_def by (rule same)
      have "batting_averages (s\<lparr>player_name := n, team := t\<rparr>) = Inr (r\<lparr>player_name := n, team := t\<rparr>)"
        by (rule batting_averages_rename [OF s(2)])
      then have "batting_averages s' = Inr (r\<lparr>player_name := n, team := t\<rparr>)"
        by (simp only: eq [symmetric])
      then have r': "r' = r\<lparr>player_name := n, team := t\<rparr>"
        using s'(2) by simp
      show "r' = r\<lparr>player_name := player_name r', team := team r'\<rparr>"
        unfolding r' by simp
    qed
    have p: "\<forall>k r r'. (k, r) \<in> set tp \<and> (k, r') \<in> set tp' \<longrightarrow>
                  games r' = games r \<and> (\<forall>key. pitching_field key r' = pitching_field key r)"
    proof (intro allI impI, elim conjE)
      fix k r r'
      assume m: "(k, r) \<in> set tp" and m': "(k, r') \<in> set tp'"
      from assms(2) m obtain ps0 s where
        0: "process_tagged add_pitching default_pitching (pitching_lines gs) [] = Inr ps0"
        and s: "(k, s) \<in> set ps0" "pitching_averages s = Inr r"
        by (rule pitching_entry)
      from tabs' m' obtain ps1 s' where
        1: "process_tagged add_pitching default_pitching (pitching_lines gs') [] = Inr ps1"
        and s': "(k, s') \<in> set ps1" "pitching_averages s' = Inr r'"
        by (rule pitching_entry)
      from pitching_averages_Inr [OF s(2)] obtain e w where r: "r = s\<lparr>era := e, whip := w\<rparr>"
        by blast
      from pitching_averages_Inr [OF s'(2)] obtain e' w' where r': "r' = s'\<lparr>era := e', whip := w'\<rparr>"
        by blast
      have "games r = games s" "games r' = games s'"
        "\<And>key. pitching_field key r = pitching_field key s"
        "\<And>key. pitching_field key r' = pitching_field key s'"
        by (simp_all add: r r' pitching_field_def)
      then show "games r' = games r \<and> (\<forall>key. pitching_field key r' = pitching_field key r)"
        using pitching_accumulated_perm [OF mp 0 1 s(1) s'(1)] by simp
    qed
    show "fst ` set tb' = fst ` set tb \<and> fst ` set tp' = fst ` set tp
            \<and> (\<forall>k r r'. (k, r) \<in> set tb \<and> (k, r') \<in> set tb' \<longrightarrow>
                  r' = r\<lparr>player_name := player_name r', team := team r'\<rparr>)
            \<and> (\<forall>k r r'. (k, r) \<in> set tp \<and> (k, r') \<in> set tp' \<longrightarrow>
                  games r' = games r \<and> (\<forall>key. pitching_field key r' = pitching_field key r))"
      using k1 k2 b p by (intro conjI)
  qed
  show ?thesis
    using first second by (rule conjI)
qed

theorem totals_independent_of_game_order_witness:
  "mset [two_for_four_game, one_for_three_game] = mset [one_for_three_game, two_for_four_game]
   \<and> aggregate_tables [one_for_three_game, two_for_four_game] =
       Inr ([(''123'', \<lparr>player_name = ''Pat'', team = ''Cubs'', games = 2, at_bats = 7, hits = 3,
               runs = 0, rbis = 0, doubles = 0, triples = 0, home_runs = 0, walks = 0, strikeouts = 0,
               batting_average = Fin 7728176960567771 (- 54),
               on_base_percentage = Fin 7728176960567771 (- 54),
               slugging_percentage = Fin 7728176960567771 (- 54),
               ops = Fin 7728176960567771 (- 53)\<rparr>)],
            [(''9'', \<lparr>player_name = ''Q'', team = ''Cubs'', games = 1, wins = 1, losses = 0, saves = 0,
               innings_pitched = fzero, hits_allowed = 0, runs_allowed = 0, earned_runs = 0,
               walks_allowed = 0, pitching_strikeouts = 0, home_runs_allowed = 0, era = fzero,
               whip = fzero\<rparr>)])
   \<and> aggregate_tables [two_for_four_game, one_for_three_game] =
       Inr ([(''123'', \<lparr>player_name = ''P'', team = ''Reds'', games = 2, at_bats = 7, hits = 3,
               runs = 0, rbis = 0, doubles = 0, triples = 0, home_runs = 0, walks = 0, strikeouts = 0,
               batting_average = Fin 7728176960567771 (- 54),
               on_base_percentage = Fin 7728176960567771 (- 54),
               slugging_percentage = Fin 7728176960567771 (- 54),
               ops = Fin 7728176960567771 (- 53)\<rparr>)],
            [(''9'', \<lparr>player_name = ''Q'', team = ''Cubs'', games = 1, wins = 1, losses = 0, saves = 0,
               innings_pitched = fzero, hits_allowed = 0, runs_allowed = 0, earned_runs = 0,
               walks_allowed = 0, pitching_strikeouts = 0, home_runs_allowed = 0, era = fzero,
               whip = fzero\<rparr>)])
   \<and> (\<exists>acc' bl'. process_games [two_for_four_game, one_for_three_game] [] [] = Inr acc'
         \<and> calculate_batting_averages (fst acc') = Inr bl')"
proof -
  let ?r = "\<lparr>player_name = ''Pat'', team = ''Cubs'', games = 2, at_bats = 7, hits = 3,
               runs = 0, rbis = 0, doubles = 0, triples = 0, home_runs = 0, walks = 0, strikeouts = 0,
               batting_average = Fin 7728176960567771 (- 54),
               on_base_percentage = Fin 7728176960567771 (- 54),
               slugging_percentage = Fin 7728176960567771 (- 54),
               ops = Fin 7728176960567771 (- 53)\<rparr>"
  let ?r' = "\<lparr>player_name = ''P'', team = ''Reds'', games = 2, at_bats = 7, hits = 3,
               runs = 0, rbis = 0, doubles = 0, triples = 0, home_runs = 0, walks = 0, strikeouts = 0,
               batting_average = Fin 7728176960567771 (- 54),
               on_base_percentage = Fin 7728176960567771 (- 54),
               slugging_percentage = Fin 7728176960567771 (- 54),
               ops = Fin 7728176960567771 (- 53)\<rparr>"
  let ?p = "\<lparr>player_name = ''Q'', team = ''Cubs'', games = 1, wins = 1, losses = 0, saves = 0,
               innings_pitched = fzero, hits_allowed = 0, runs_allowed = 0, earned_runs = 0,
               walks_allowed = 0, pitching_strikeouts = 0, home_runs_allowed = 0, era = fzero,
               whip = fzero\<rparr>"
  have perm: "mset [two_for_four_game, one_for_three_game] = mset [one_for_three_game, two_for_four_game]"
    by simp
  have run: "aggregate_tables [one_for_three_game, two_for_four_game] = Inr ([(''123'', ?r)], [(''9'', ?p)])"
    by code_simp
  have run': "aggregate_tables [two_for_four_game, one_for_three_game] = Inr ([(''123'', ?r')], [(''9'', ?p)])"
    by code_simp
  from totals_independent_of_game_order [OF perm run]
  have "\<exists>acc' bl'. process_games [two_for_four_game, one_for_three_game] [] [] = Inr acc'
         \<and> calculate_batting_averages (fst acc') = Inr bl'"
    by (rule conjunct1)
  then show ?thesis
    using perm run run' by (intro conjI)
qed

text \<open>
  Claim C5 as stated fails on the sum of the innings: a pitcher with a third of an inning in
  two games and two innings in another has \<open>2.6666666666666665\<close> innings on one ordering
  and \<open>2.666666666666667\<close> on the other.
\<close>

theorem float_sum_order_counterexample:
  "mset [two_inning_game, third_inning_game, third_inning_game]
     = mset [third_inning_game, third_inning_game, two_inning_game]
   \<and> calculate_aggregate_stats [third_inning_game, third_inning_game, two_inning_game] =
       Inr ([], [\<lparr>player_name = ''Q'', team = ''Reds'', games = 3, wins = 0, losses = 0, saves = 0,
          innings_pitched = Fin 6004799503160661 (- 51), hits_allowed = 0,
          runs_allowed = 0, earned_runs = 2, walks_allowed = 0,
          pitching_strikeouts = 0, home_runs_allowed = 0,
          era = Fin 27 (- 2), whip = fzero\<rparr>])
   \<and> calculate_aggregate_stats [two_inning_game, third_inning_game, third_inning_game] =
       Inr ([], [\<lparr>player_name = ''Q'', team = ''Reds'', games = 3, wins = 0, losses = 0, saves = 0,
          innings_pitched = Fin 3002399751580331 (- 50), hits_allowed = 0,
          runs_allowed = 0, earned_runs = 2, walks_allowed = 0,
          pitching_strikeouts = 0, home_runs_allowed = 0,
          era = Fin 27 (- 2), whip = fzero\<rparr>])
   \<and> Fin 6004799503160661 (- 51) \<noteq> Fin 3002399751580331 (- 50)"
proof -
  have "mset [two_inning_game, third_inning_game, third_inning_game]
     = mset [third_inning_game, third_inning_game, two_inning_game]"
    by simp
  moreover have "calculate_aggregate_stats [third_inning_game, third_inning_game, two_inning_game] =
       Inr ([], [\<lparr>player_name = ''Q'', team = ''Reds'', games = 3, wins = 0, losses = 0, saves = 0,
          innings_pitched = Fin 6004799503160661 (- 51), hits_allowed = 0,
          runs_allowed = 0, earned_runs = 2, walks_allowed = 0,
          pitching_strikeouts = 0, home_runs_allowed = 0,
          era = Fin 27 (- 2), whip = fzero\<rparr>])"
    by code_simp
  moreover have "calculate_aggregate_stats [two_inning_game, third_inning_game, third_inning_game] =
       Inr ([], [\<lparr>player_name = ''Q'', team = ''Reds'', games = 3, wins = 0, losses = 0, saves = 0,
          innings_pitched = Fin 3002399751580331 (- 50), hits_allowed = 0,
          runs_allowed = 0, earned_runs = 2, walks_allowed = 0,
          pitching_strikeouts = 0, home_runs_allowed = 0,
          era = Fin 27 (- 2), whip = fzero\<rparr>])"
    by code_simp
  ultimately show ?thesis
    by simp
qed

section \<open>Team summary\<close>

lemma team_of_bump: "team_of (bump t f d) t' = (if t' = t then f (team_of d t) else team_of d t')"
  by (simp add: team_of_def bump_def)

lemma total_update:
  assumes "F default_team_record = 0"
  shows "team_total F (AList.update k v d) = team_total F d - F (team_of d k) + F v"
  using assms by (induction d) (auto simp: team_total_def team_of_def get_field_def)

lemma total_bump:
  assumes "F default_team_record = 0"
  shows "team_total F (bump t f d) = team_total F d - F (team_of d t) + F (f (team_of d t))"
  using total_update [of F, OF assms] by (simp add: bump_def team_of_def)

lemma count_Cons: "count_games P (x # xs) = (if P x then 1 else 0) + count_games P xs"
  by (simp add: count_games_def)

lemma count_Nil [simp]: "count_games P [] = 0"
  by (simp add: count_games_def)

lemma team_game_Inr:
  "team_game g d = Inr d' \<longleftrightarrow>
     score_ok g \<and>
     d' = record_result (home_name g) (away_name g) (score_of (home_score g)) (score_of (away_score g))
            (bump (away_name g) add_seen (bump (home_name g) add_seen d))"
  by (auto simp: team_game_def bind_eq_Inr score_ok_def score_of_def home_name_def away_name_def)

lemma team_game_team:
  assumes "team_game g d = Inr d'"
  shows "games_seen (team_of d' t) =
           games_seen (team_of d t) + (if home_name g = t then 1 else 0) + (if away_name g = t then 1 else 0)"
    and "team_wins (team_of d' t) =
           team_wins (team_of d t) + (if home_name g = t \<and> home_won g then 1 else 0)
             + (if away_name g = t \<and> away_won g then 1 else 0)"
    and "team_losses (team_of d' t) =
           team_losses (team_of d t) + (if home_name g = t \<and> away_won g then 1 else 0)
             + (if away_name g = t \<and> home_won g then 1 else 0)"
  using assms unfolding team_game_Inr
  by (auto simp: record_result_def team_of_bump add_seen_def add_win_def add_loss_def
      home_won_def away_won_def)

lemma team_game_total:
  assumes "team_game g d = Inr d'"
  shows "team_total team_wins d' = team_total team_wins d + (if home_won g \<or> away_won g then 1 else 0)"
    and "team_total team_losses d' = team_total team_losses d + (if home_won g \<or> away_won g then 1 else 0)"
    and "team_total games_seen d' = team_total games_seen d + 2"
  using assms unfolding team_game_Inr
  by (auto simp: record_result_def total_bump team_of_bump default_team_record_def add_seen_def
      add_win_def add_loss_def home_won_def away_won_def)

lemma team_games_raise:
  assumes "\<exists>g \<in> set gs. \<not> score_ok g"
  shows "\<exists>err. team_games gs d = Inl err"
  using assms
proof (induction gs arbitrary: d)
  case Nil
  then show ?case by simp
next
  case (Cons g gs)
  show ?case
  proof (cases "team_game g d")
    case (Inl e)
    then show ?thesis by simp
  next
    case (Inr d1)
    then have "score_ok g"
      by (simp add: team_game_Inr)
    then have "\<exists>g \<in> set gs. \<not> score_ok g"
      using Cons.prems by auto
    then show ?thesis
      using Cons.IH [of d1] Inr by simp
  qed
qed

lemma team_games_total_run:
  assumes "\<forall>g \<in> set gs. score_ok g"
  shows "\<exists>recs. team_games gs d = Inr recs"
  using assms
proof (induction gs arbitrary: d)
  case Nil
  show ?case by simp
next
  case (Cons g gs)
  then obtain d1 where "team_game g d = Inr d1"
    by (auto simp: team_game_Inr)
  then show ?case
    using Cons.IH [of d1] Cons.prems by auto
qed

lemma team_games_team:
  assumes "team_games gs d = Inr recs"
  shows "games_seen (team_of recs t) = games_seen (team_of d t)
           + count_games (\<lambda>g. home_name g = t) gs + count_games (\<lambda>g. away_name g = t) gs"
    and "team_wins (team_of recs t) = team_wins (team_of d t)
           + count_games (\<lambda>g. home_name g = t \<and> home_won g) gs
           + count_games (\<lambda>g. away_name g = t \<and> away_won g) gs"
    and "team_losses (team_of recs t) = team_losses (team_of d t)
           + count_games (\<lambda>g. home_name g = t \<and> away_won g) gs
           + count_games (\<lambda>g. away_name g = t \<and> home_won g) gs"
  using assms
proof (induction gs arbitrary: d)
  case Nil
  {
    case 1 then show ?case by simp
  next
    case 2 then show ?case by simp
  next
    case 3 then show ?case by simp
  }
next
  case (Cons g gs)
  {
    case 1
    then obtain d1 where g: "team_game g d = Inr d1" and rest: "team_games gs d1 = Inr recs"
      by (auto simp: bind_eq_Inr)
    show ?case
      using Cons.IH(1) [OF rest] team_game_team(1) [OF g, of t] by (simp add: count_Cons)
  next
    case 2
    then obtain d1 where g: "team_game g d = Inr d1" and rest: "team_games gs d1 = Inr recs"
      by (auto simp: bind_eq_Inr)
    show ?case
      using Cons.IH(2) [OF rest] team_game_team(2) [OF g, of t] by (simp add: count_Cons)
  next
    case 3
    then obtain d1 where g: "team_game g d = Inr d1" and rest: "team_games gs d1 = Inr recs"
      by (auto simp: bind_eq_Inr)
    show ?case
      using Cons.IH(3) [OF rest] team_game_team(3) [OF g, of t] by (simp add: count_Cons)
  }
qed

lemma team_games_totals:
  assumes "team_games gs d = Inr recs"
  shows "team_total team_wins recs = team_total team_wins d + count_games (\<lambda>g. home_won g \<or> away_won g) gs
       \<and> team_total team_losses recs = team_total team_losses d + count_games (\<lambda>g. home_won g \<or> away_won g) gs
       \<and> team_total games_seen recs = team_total games_seen d + 2 * int (length gs)"
  using assms
proof (induction gs arbitrary: d)
  case Nil
  then show ?case by simp
next
  case (Cons g gs)
  then obtain d1 where g: "team_game g d = Inr d1" and rest: "team_games gs d1 = Inr recs"
    by (auto simp: bind_eq_Inr)
  show ?case
    using Cons.IH [OF rest] team_game_total [OF g] by (simp add: count_Cons)
qed

text \<open>
  Claim C10, as the code has it. A score that is text is taken to be ASCII text of at most
  4300 characters. When \<^verbatim>\<open>int\<close> accepts the scores of all games (a missing score counts as
  \<open>0\<close>), \<^verbatim>\<open>get_team_summary\<close> returns, and for every team: \<open>games_seen\<close> is the number
  of games it played at home plus the number it played away; its wins are the games it
  won at home plus those it won away; its losses likewise; a tie adds to neither. Over all
  teams, the wins and the losses both sum to the number of games that were not tied, and
  \<open>games_seen\<close> to twice the number of games. When \<^verbatim>\<open>int\<close> rejects a score of some
  game, the call raises, and returns no summary.
\<close>

theorem team_summary_counts:
  assumes "\<forall>g \<in> set gs. score_plain g"
  shows "((\<forall>g \<in> set gs. score_ok g) \<longrightarrow>
          (\<exists>recs. get_team_summary gs = Inr recs
            \<and> (\<forall>t. games_seen (team_of recs t) =
                      count_games (\<lambda>g. home_name g = t) gs + count_games (\<lambda>g. away_name g = t) gs
                  \<and> team_wins (team_of recs t) =
                      count_games (\<lambda>g. home_name g = t \<and> home_won g) gs
                        + count_games (\<lambda>g. away_name g = t \<and> away_won g) gs
                  \<and> team_losses (team_of recs t) =
                      count_games (\<lambda>g. home_name g = t \<and> away_won g) gs
                        + count_games (\<lambda>g. away_name g = t \<and> home_won g) gs)
            \<and> team_total team_wins recs = count_games (\<lambda>g. home_won g \<or> away_won g) gs
            \<and> team_total team_losses recs = count_games (\<lambda>g. home_won g \<or> away_won g) gs
            \<and> team_total games_seen recs = 2 * int (length gs)))
       \<and> ((\<exists>g \<in> set gs. \<not> score_ok g) \<longrightarrow> (\<exists>err. get_team_summary gs = Inl err))"
proof (intro conjI impI)
  assume ok: "\<forall>g \<in> set gs. score_ok g"
  from team_games_total_run [OF ok] obtain recs where run: "team_games gs [] = Inr recs"
    by blast
  have zero: "team_of [] t = default_team_record" for t
    by (simp add: team_of_def get_field_def)
  have "\<forall>t. games_seen (team_of recs t) =
                count_games (\<lambda>g. home_name g = t) gs + count_games (\<lambda>g. away_name g = t) gs
            \<and> team_wins (team_of recs t) =
                count_games (\<lambda>g. home_name g = t \<and> home_won g) gs
                  + count_games (\<lambda>g. away_name g = t \<and> away_won g) gs
            \<and> team_losses (team_of recs t) =
                count_games (\<lambda>g. home_name g = t \<and> away_won g) gs
                  + count_games (\<lambda>g. away_name g = t \<and> home_won g) gs"
    using team_games_team [OF run] by (simp add: zero default_team_record_def)
  moreover have "team_total team_wins recs = count_games (\<lambda>g. home_won g \<or> away_won g) gs
      \<and> team_total team_losses recs = count_games (\<lambda>g. home_won g \<or> away_won g) gs
      \<and> team_total games_seen recs = 2 * int (length gs)"
    using team_games_totals [OF run] by (simp add: team_total_def)
  ultimately show "\<exists>recs. get_team_summary gs = Inr recs
            \<and> (\<forall>t. games_seen (team_of recs t) =
                      count_games (\<lambda>g. home_name g = t) gs + count_games (\<lambda>g. away_name g = t) gs
                  \<and> team_wins (team_of recs t) =
                      count_games (\<lambda>g. home_name g = t \<and> home_won g) gs
                        + count_games (\<lambda>g. away_name g = t \<and> away_won g) gs
                  \<and> team_losses (team_of recs t) =
                      count_games (\<lambda>g. home_name g = t \<and> away_won g) gs
                        + count_games (\<lambda>g. away_name g = t \<and> home_won g) gs)
            \<and> team_total team_wins recs = count_games (\<lambda>g. home_won g \<or> away_won g) gs
            \<and> team_total team_losses recs = count_games (\<lambda>g. home_won g \<or> away_won g) gs
            \<and> team_total games_seen recs = 2 * int (length gs)"
    using run by (simp add: get_team_summary_def)
next
  assume "\<exists>g \<in> set gs. \<not> score_ok g"
  then show "\<exists>err. get_team_summary gs = Inl err"
    unfolding get_team_summary_def by (rule team_games_raise)
qed

theorem team_summary_counts_witness:
  "get_team_summary season =
       Inr [(''Reds'', \<lparr>team_wins = 2, team_losses = 0, games_seen = 3\<rparr>),
            (''Cubs'', \<lparr>team_wins = 0, team_losses = 1, games_seen = 2\<rparr>),
            (''Mets'', \<lparr>team_wins = 0, team_losses = 1, games_seen = 1\<rparr>)]
   \<and> count_games (\<lambda>g. home_won g \<or> away_won g) season = 2 + 0 + 0
   \<and> 2 * int (length season) = 3 + 2 + 1
   \<and> (\<exists>err. get_team_summary [tied_games, forfeited_game] = Inl err)"
proof -
  have four: "py_int (PStr ''4'') = Inr 4"
    by code_simp
  have plain: "\<forall>g \<in> set season. score_plain g"
    by code_simp
  have ok: "\<forall>g \<in> set season. score_ok g"
    using four by (simp add: season_def tied_games_def score_ok_def get_field_def)
  have run: "get_team_summary season =
       Inr [(''Reds'', \<lparr>team_wins = 2, team_losses = 0, games_seen = 3\<rparr>),
            (''Cubs'', \<lparr>team_wins = 0, team_losses = 1, games_seen = 2\<rparr>),
            (''Mets'', \<lparr>team_wins = 0, team_losses = 1, games_seen = 1\<rparr>)]"
    by code_simp
  have plain': "\<forall>g \<in> set [tied_games, forfeited_game]. score_plain g"
    by code_simp
  have "py_int (PStr ''F'') = Inl ValueError"
    by code_simp
  then have bad: "\<exists>g \<in> set [tied_games, forfeited_game]. \<not> score_ok g"
    by (simp add: forfeited_game_def tied_games_def score_ok_def get_field_def)
  have raised: "\<exists>err. get_team_summary [tied_games, forfeited_game] = Inl err"
    using team_summary_counts [OF plain'] bad by blast
  from team_summary_counts [OF plain] ok run raised show ?thesis
    by (auto simp: team_total_def)
qed

text \<open>
  Claim C10 as stated fails for some lists of games: a score that is not numeric, the text
  \<^verbatim>\<open>F\<close> or \<^verbatim>\<open>None\<close> for a game that was not played, makes the call raise.
\<close>

theorem team_summary_counterexample:
  "get_team_summary [tied_games, forfeited_game] = Inl ValueError
   \<and> get_team_summary [unplayed_game] = Inl TypeError"
  by code_simp

section \<open>The input objects, and a second call\<close>

lemma and_then_unfold:
  "and_then r f = (case snd r of Inl e \<Rightarrow> (fst r, Inl e) | Inr x \<Rightarrow> f (fst r) x)"
  by (cases r; cases "snd r") auto

lemma and_then_cases:
  obtains (raised) e where "snd c = Inl e" "and_then c f = (fst c, Inl e)"
  | (returned) x where "snd c = Inr x" "and_then c f = f (fst c) x"
  by (cases "snd c") (auto simp: and_then_unfold)

lemma deref_Inr: "a < length st \<Longrightarrow> unwrap (st ! a) = Some x \<Longrightarrow> deref unwrap st a = Inr x"
  by (simp add: deref_def)

lemma undisturbed_refl: "undisturbed unwrap n st st"
  by (simp add: undisturbed_def)

lemma undisturbed_trans:
  assumes "undisturbed unwrap n st st1" and "undisturbed unwrap n st1 st2"
  shows "undisturbed unwrap n st st2"
  unfolding undisturbed_def
proof (intro conjI allI impI)
  show "length st \<le> length st2"
    using assms by (simp add: undisturbed_def)
  fix b assume b: "b < length st" "b < n \<or> unwrap (st ! b) = None"
  then have 1: "st1 ! b = st ! b"
    using assms(1) by (auto simp: undisturbed_def)
  have "b < length st1"
    using b(1) assms(1) by (simp add: undisturbed_def)
  moreover have "b < n \<or> unwrap (st1 ! b) = None"
    using b(2) 1 by simp
  ultimately have "st2 ! b = st1 ! b"
    using assms(2) by (auto simp: undisturbed_def)
  then show "st2 ! b = st ! b"
    using 1 by simp
qed

lemma undisturbed_kept: "undisturbed unwrap n st st' \<Longrightarrow> n \<le> length st \<Longrightarrow> kept n st st'"
  by (simp add: undisturbed_def kept_def)

lemma kept_refl: "kept n st st"
  by (simp add: kept_def)

lemma kept_trans: "kept n st st1 \<Longrightarrow> kept n st1 st2 \<Longrightarrow> kept n st st2"
  by (simp add: kept_def)

lemma simulates_bind:
  assumes "simulates F p c Q"
    and "\<And>x st1 y. Q x st1 y \<Longrightarrow> F st1 \<Longrightarrow> simulates F (f x) (g st1 y) Q'"
  shows "simulates F (bind p f) (and_then c g) Q'"
proof (cases p)
  case (Inl e)
  then have "snd c = Inl e" "F (fst c)"
    using assms(1) by (simp_all add: simulates_def)
  then show ?thesis
    using Inl by (simp add: simulates_def and_then_unfold)
next
  case (Inr x)
  then obtain y where y: "snd c = Inr y" "Q x (fst c) y" and F: "F (fst c)"
    using assms(1) by (auto simp: simulates_def)
  have "and_then c g = g (fst c) y"
    using y(1) by (simp add: and_then_unfold)
  then show ?thesis
    using assms(2) [OF y(2) F] Inr by simp
qed

lemma simulates_weaken:
  assumes "simulates F p c Q"
    and "\<And>st'. F st' \<Longrightarrow> F' st'" and "\<And>x st' y. F st' \<Longrightarrow> Q x st' y \<Longrightarrow> Q' x st' y"
  shows "simulates F' p c Q'"
  using assms by (cases p) (auto simp: simulates_def)

lemma simulates_Inr: "F st \<Longrightarrow> Q x st y \<Longrightarrow> simulates F (Inr x) (st, Inr y) Q"
  by (simp add: simulates_def)

lemma update_append: "k \<notin> fst ` set pd \<Longrightarrow> AList.update k v pd = pd @ [(k, v)]"
  by (induction pd) auto

lemma stats_rel_Nil: "stats_rel unwrap n st [] []"
  by (simp add: stats_rel_def)

lemma stats_rel_all:
  "stats_rel unwrap n st d pd \<Longrightarrow>
     list_all2 (\<lambda>ra ks. fst ra = fst ks \<and> n \<le> snd ra \<and> snd ra < length st
                           \<and> unwrap (st ! snd ra) = Some (snd ks)) d pd"
  by (simp add: stats_rel_def)

lemma stats_rel_keys:
  assumes "stats_rel unwrap n st d pd"
  shows "map fst d = map fst pd"
  using stats_rel_all [OF assms] by (induction d pd rule: list_all2_induct) auto

lemma stats_rel_None:
  assumes "stats_rel unwrap n st d pd"
  shows "map_of d k = None \<longleftrightarrow> map_of pd k = None"
  using stats_rel_keys [OF assms] by (metis map_of_eq_None_iff set_map)

lemma stats_rel_Some:
  assumes "stats_rel unwrap n st d pd" and "map_of d k = Some a"
  shows "\<exists>s. map_of pd k = Some s \<and> unwrap (st ! a) = Some s \<and> a < length st \<and> n \<le> a"
  using stats_rel_all [OF assms(1)] assms(2)
proof (induction d pd rule: list_all2_induct)
  case Nil
  then show ?case by simp
next
  case (Cons x xs y ys)
  then show ?case
    by (cases x; cases y) (auto split: if_splits)
qed

lemma rel_list_transfer:
  assumes "list_all2 (\<lambda>ra ks. fst ra = fst ks \<and> n \<le> snd ra \<and> snd ra < length st
                           \<and> unwrap (st ! snd ra) = Some (snd ks)) d pd"
    and len: "length st \<le> length st'"
    and same: "\<And>a. a \<in> snd ` set d \<Longrightarrow> st' ! a = st ! a"
  shows "list_all2 (\<lambda>ra ks. fst ra = fst ks \<and> n \<le> snd ra \<and> snd ra < length st'
                           \<and> unwrap (st' ! snd ra) = Some (snd ks)) d pd"
  using assms(1) same
proof (induction d pd rule: list_all2_induct)
  case Nil
  then show ?case by simp
next
  case (Cons x xs y ys)
  have "st' ! snd x = st ! snd x"
    using Cons.prems by simp
  moreover have "\<And>a. a \<in> snd ` set xs \<Longrightarrow> st' ! a = st ! a"
    using Cons.prems by simp
  ultimately show ?case
    using Cons.hyps Cons.IH len by auto
qed

lemma stats_rel_transfer:
  assumes rel: "stats_rel unwrap n st d pd" and len: "length st \<le> length st'"
    and same: "\<And>a. a \<in> snd ` set d \<Longrightarrow> st' ! a = st ! a"
  shows "stats_rel unwrap n st' d pd"
  using rel_list_transfer [OF stats_rel_all [OF rel] len same] rel by (simp add: stats_rel_def)

lemma stats_rel_other_kind:
  assumes rel: "stats_rel unwrap2 n st d pd" and un: "undisturbed unwrap1 n st st'"
    and kinds: "\<And>x s. unwrap2 x = Some s \<Longrightarrow> unwrap1 x = None"
  shows "stats_rel unwrap2 n st' d pd"
proof (rule stats_rel_transfer [OF rel])
  show "length st \<le> length st'"
    using un by (simp add: undisturbed_def)
  fix a assume "a \<in> snd ` set d"
  then obtain k where "(k, a) \<in> set d"
    by auto
  moreover have "distinct (map fst d)"
    using rel by (simp add: stats_rel_def)
  ultimately have "map_of d k = Some a"
    by simp
  then obtain s where "unwrap2 (st ! a) = Some s" "a < length st"
    using stats_rel_Some [OF rel] by blast
  then show "st' ! a = st ! a"
    using un kinds by (simp add: undisturbed_def)
qed

lemma stats_rel_write:
  assumes rel: "stats_rel unwrap n st d pd" and look: "map_of d k = Some a"
    and len: "length st' = length st" and others: "\<And>b. b \<noteq> a \<Longrightarrow> st' ! b = st ! b"
    and new: "unwrap (st' ! a) = Some s'"
  shows "stats_rel unwrap n st' d (AList.update k s' pd)"
proof -
  have dk: "distinct (map fst d)" and da: "distinct (map snd d)"
    using rel by (simp_all add: stats_rel_def)
  have "list_all2 (\<lambda>ra ks. fst ra = fst ks \<and> n \<le> snd ra \<and> snd ra < length st'
                           \<and> unwrap (st' ! snd ra) = Some (snd ks)) d (AList.update k s' pd)"
    using stats_rel_all [OF rel] dk da look
  proof (induction d pd rule: list_all2_induct)
    case Nil
    then show ?case by simp
  next
    case (Cons x xs y ys)
    obtain k1 a1 where x: "x = (k1, a1)" by (cases x)
    obtain k2 s2 where y: "y = (k2, s2)" by (cases y)
    have same: "k2 = k1" and a1: "a1 < length st" "n \<le> a1" and v1: "unwrap (st ! a1) = Some s2"
      using Cons.hyps(1) by (simp_all add: x y)
    show ?case
    proof (cases "k1 = k")
      case True
      then have a: "a1 = a"
        using Cons.prems(3) by (simp add: x)
      have "a \<notin> snd ` set xs"
        using Cons.prems(2) by (simp add: x a [symmetric])
      then have rest: "\<And>b. b \<in> snd ` set xs \<Longrightarrow> st' ! b = st ! b"
        using others by metis
      have "list_all2 (\<lambda>ra ks. fst ra = fst ks \<and> n \<le> snd ra \<and> snd ra < length st'
                           \<and> unwrap (st' ! snd ra) = Some (snd ks)) xs ys"
      proof (rule rel_list_transfer [OF Cons.hyps(2)])
        show "length st \<le> length st'"
          using len by simp
        show "\<And>a. a \<in> snd ` set xs \<Longrightarrow> st' ! a = st ! a"
          by (rule rest)
      qed
      then show ?thesis
        using True same a a1 new len by (simp add: x y)
    next
      case False
      then have look': "map_of xs k = Some a"
        using Cons.prems(3) by (simp add: x)
      then have "a \<in> snd ` set xs"
        by (metis image_eqI map_of_SomeD snd_conv)
      then have "a1 \<noteq> a"
        using Cons.prems(2) by (auto simp: x)
      then have "st' ! a1 = st ! a1"
        using others by simp
      moreover have "list_all2 (\<lambda>ra ks. fst ra = fst ks \<and> n \<le> snd ra \<and> snd ra < length st'
                           \<and> unwrap (st' ! snd ra) = Some (snd ks)) xs (AList.update k s' ys)"
        using Cons.IH Cons.prems look' by simp
      ultimately show ?thesis
        using False same a1 v1 len by (simp add: x y)
    qed
  qed
  moreover have "distinct (map fst d)" "distinct (map snd d)"
    by (rule dk, rule da)
  ultimately show ?thesis
    by (simp add: stats_rel_def)
qed

lemma stats_rel_insert:
  assumes wu: "\<And>s. unwrap (wrap s) = Some s"
    and rel: "stats_rel unwrap n st d pd" and look: "map_of d k = None" and n: "n \<le> length st"
  shows "stats_rel unwrap n (st @ [wrap s']) (d @ [(k, length st)]) (AList.update k s' pd)"
proof -
  have all: "list_all2 (\<lambda>ra ks. fst ra = fst ks \<and> n \<le> snd ra \<and> snd ra < length st
                           \<and> unwrap (st ! snd ra) = Some (snd ks)) d pd"
    and dk: "distinct (map fst d)" and da: "distinct (map snd d)"
    using rel by (simp_all add: stats_rel_def)
  have nk: "k \<notin> fst ` set d"
    using look by (simp add: map_of_eq_None_iff)
  then have "k \<notin> fst ` set pd"
    using stats_rel_keys [OF rel] by (metis set_map)
  then have up: "AList.update k s' pd = pd @ [(k, s')]"
    by (rule update_append)
  have old: "list_all2 (\<lambda>ra ks. fst ra = fst ks \<and> n \<le> snd ra \<and> snd ra < length (st @ [wrap s'])
                           \<and> unwrap ((st @ [wrap s']) ! snd ra) = Some (snd ks)) d pd"
    using all by (induction d pd rule: list_all2_induct) (auto simp: nth_append)
  have new: "list_all2 (\<lambda>ra ks. fst ra = fst ks \<and> n \<le> snd ra \<and> snd ra < length (st @ [wrap s'])
                           \<and> unwrap ((st @ [wrap s']) ! snd ra) = Some (snd ks)) [(k, length st)] [(k, s')]"
    using n wu by simp
  have "length st \<notin> snd ` set d"
  proof
    assume "length st \<in> snd ` set d"
    then obtain k' where "(k', length st) \<in> set d"
      by auto
    then have "map_of d k' = Some (length st)"
      using dk by simp
    then show False
      using stats_rel_Some [OF rel] by fastforce
  qed
  then show ?thesis
    using list_all2_appendI [OF old new] dk da nk by (simp add: stats_rel_def up)
qed

lemma store_statements_run:
  assumes wu: "\<And>s. unwrap (wrap s) = Some s"
    and keepP: "\<And>st' x. P st' \<Longrightarrow> P (st'[a := x])"
    and agree: "list_all2 (\<lambda>F f. \<forall>st'. P st' \<longrightarrow> F st' = f) Fs fs"
    and P: "P st" and a: "a < length st" and s: "unwrap (st ! a) = Some s"
  shows "length (fst (store_statements wrap unwrap a Fs st)) = length st
       \<and> (\<forall>b. b \<noteq> a \<longrightarrow> fst (store_statements wrap unwrap a Fs st) ! b = st ! b)
       \<and> (case run_statements fs s of
            Inl e \<Rightarrow> snd (store_statements wrap unwrap a Fs st) = Inl e
          | Inr s' \<Rightarrow> snd (store_statements wrap unwrap a Fs st) = Inr ()
                     \<and> unwrap (fst (store_statements wrap unwrap a Fs st) ! a) = Some s')"
  using agree P a s
proof (induction Fs fs arbitrary: st s rule: list_all2_induct)
  case Nil
  then show ?case by simp
next
  case (Cons F Fs f fs)
  have d: "deref unwrap st a = Inr s"
    using Cons.prems by (simp add: deref_Inr)
  have Ff: "F st = f"
    using Cons.hyps(1) Cons.prems(1) by simp
  show ?case
  proof (cases "f s")
    case (Inl e)
    then show ?thesis
      by (simp add: d Ff)
  next
    case (Inr s1)
    have step: "store_statements wrap unwrap a (F # Fs) st
                = store_statements wrap unwrap a Fs (st[a := wrap s1])"
      by (simp add: d Ff Inr)
    have "P (st[a := wrap s1])" "a < length (st[a := wrap s1])"
      "unwrap (st[a := wrap s1] ! a) = Some s1"
      using Cons.prems keepP wu by simp_all
    from Cons.IH [OF this] show ?thesis
      unfolding step by (simp add: Inr)
  qed
qed

lemma run_batting_additions: "run_statements (batting_additions l) s = add_batting l s"
  unfolding batting_additions_def add_batting_def
  by (simp add: bind_def split: sum.splits)

lemma run_pitching_additions: "run_statements (pitching_additions l) s = add_pitching l s"
  unfolding pitching_additions_def add_pitching_def
  by (simp add: bind_def split: sum.splits)

lemma run_line_statements:
  "run_statements
     ([\<lambda>s. Inr (s\<lparr>player_name := nm\<rparr>), \<lambda>s. Inr (s\<lparr>team := t\<rparr>), \<lambda>s. Inr (s\<lparr>games := games s + 1\<rparr>)]
      @ additions) s
   = run_statements additions (s\<lparr>player_name := nm, team := t, games := games s + 1\<rparr>)"
  by simp

lemma lifted_agree: "list_all2 (\<lambda>F f. \<forall>st'. P st' \<longrightarrow> F st' = f) (map (\<lambda>statement st. statement) fs) fs"
  by (induction fs) auto

lemma line_statements_agree:
  "list_all2 (\<lambda>F f. \<forall>st'. game_ref < length st' \<and> st' ! game_ref = GameObj g \<longrightarrow> F st' = f)
     (line_statements side game_ref l additions)
     ([\<lambda>s. Inr (s\<lparr>player_name := get_field (name l) ''Unknown''\<rparr>),
       \<lambda>s. Inr (s\<lparr>team := get_field (side g) ''Unknown''\<rparr>),
       \<lambda>s. Inr (s\<lparr>games := games s + 1\<rparr>)] @ additions)"
  unfolding line_statements_def
  by (intro list_all2_appendI lifted_agree) (simp add: deref_def)

lemma getitem_rel:
  assumes wu: "\<And>s. unwrap (wrap s) = Some s"
    and rel: "stats_rel unwrap n st d pd" and n: "n \<le> length st"
  obtains st1 d1 a pd1 where
    "getitem (wrap dflt) k st d = ((st1, d1), a)"
    "stats_rel unwrap n st1 d1 pd1" "map_of d1 k = Some a"
    "unwrap (st1 ! a) = Some (get_field (map_of pd k) dflt)" "a < length st1" "n \<le> a"
    "\<And>s'. AList.update k s' pd1 = AList.update k s' pd"
    "length st \<le> length st1" "\<And>b. b < length st \<Longrightarrow> st1 ! b = st ! b"
    "a < length st \<Longrightarrow> unwrap (st ! a) \<noteq> None"
proof (cases "map_of d k")
  case None
  have get: "getitem (wrap dflt) k st d = ((st @ [wrap dflt], d @ [(k, length st)]), length st)"
    using None by (simp add: getitem_def)
  have rel1: "stats_rel unwrap n (st @ [wrap dflt]) (d @ [(k, length st)]) (AList.update k dflt pd)"
    by (rule stats_rel_insert [OF wu rel None n])
  have look: "map_of (d @ [(k, length st)]) k = Some (length st)"
    by (simp add: None map_add_def)
  have "map_of pd k = None"
    using stats_rel_None [OF rel] None by simp
  then have val: "unwrap ((st @ [wrap dflt]) ! length st) = Some (get_field (map_of pd k) dflt)"
    by (simp add: wu get_field_def)
  show ?thesis
    by (rule that [OF get rel1 look val]) (simp_all add: n nth_append)
next
  case (Some a)
  have get: "getitem (wrap dflt) k st d = ((st, d), a)"
    using Some by (simp add: getitem_def)
  from stats_rel_Some [OF rel Some] obtain s where
    s: "map_of pd k = Some s" "unwrap (st ! a) = Some s" "a < length st" "n \<le> a"
    by blast
  have val: "unwrap (st ! a) = Some (get_field (map_of pd k) dflt)"
    using s by (simp add: get_field_def)
  show ?thesis
    by (rule that [OF get rel Some val s(3) s(4)]) (simp_all add: s)
qed

lemma store_line_simulates:
  assumes wu: "\<And>s. unwrap (wrap s) = Some s"
    and add: "\<And>s. run_statements (additions l) s = add l s"
    and rel: "stats_rel unwrap n st d pd" and n: "n \<le> length st"
    and game: "game_ref < n" "st ! game_ref = GameObj g"
  shows "simulates (undisturbed unwrap n st)
           (process_line add dflt (get_field (side g) ''Unknown'') l pd)
           (store_line wrap unwrap dflt additions side game_ref l st d)
           (\<lambda>pd' st' d'. stats_rel unwrap n st' d' pd')"
proof -
  define k where "k = player_key l"
  define s0 where "s0 = get_field (map_of pd k) dflt"
  define t where "t = get_field (side g) ''Unknown''"
  from getitem_rel [OF wu rel n, of dflt k] obtain st1 d1 a pd1 where
    get: "getitem (wrap dflt) k st d = ((st1, d1), a)"
    and rel1: "stats_rel unwrap n st1 d1 pd1" and look: "map_of d1 k = Some a"
    and val: "unwrap (st1 ! a) = Some s0" and a: "a < length st1" "n \<le> a"
    and up: "\<And>s'. AList.update k s' pd1 = AList.update k s' pd"
    and len1: "length st \<le> length st1" and old: "\<And>b. b < length st \<Longrightarrow> st1 ! b = st ! b"
    and kind: "a < length st \<Longrightarrow> unwrap (st ! a) \<noteq> None"
    unfolding s0_def by blast
  define c where "c = store_statements wrap unwrap a (line_statements side game_ref l (additions l)) st1"
  have P1: "game_ref < length st1 \<and> st1 ! game_ref = GameObj g"
    using game n len1 old [of game_ref] by simp
  have keepP: "\<And>st' x. game_ref < length st' \<and> st' ! game_ref = GameObj g
                 \<Longrightarrow> game_ref < length (st'[a := x]) \<and> st'[a := x] ! game_ref = GameObj g"
    using game(1) a(2) by simp
  have run: "run_statements
               ([\<lambda>s. Inr (s\<lparr>player_name := get_field (name l) ''Unknown''\<rparr>),
                 \<lambda>s. Inr (s\<lparr>team := get_field (side g) ''Unknown''\<rparr>),
                 \<lambda>s. Inr (s\<lparr>games := games s + 1\<rparr>)] @ additions l) s0
             = add l (touched t l s0)"
    unfolding run_line_statements by (simp add: add touched_def t_def)
  have facts: "length (fst c) = length st1 \<and> (\<forall>b. b \<noteq> a \<longrightarrow> fst c ! b = st1 ! b)
       \<and> (case add l (touched t l s0) of
            Inl e \<Rightarrow> snd c = Inl e
          | Inr s' \<Rightarrow> snd c = Inr () \<and> unwrap (fst c ! a) = Some s')"
    using store_statements_run [of unwrap wrap "\<lambda>st'. game_ref < length st' \<and> st' ! game_ref = GameObj g",
        OF wu keepP line_statements_agree [where additions = "additions l" and l = l and side = side and g = g
          and game_ref = game_ref] P1 a(1) val]
    unfolding run c_def by simp
  have lenc: "length (fst c) = length st1" and others: "\<And>b. b \<noteq> a \<Longrightarrow> fst c ! b = st1 ! b"
    using facts by simp_all
  have und: "undisturbed unwrap n st (fst c)"
    unfolding undisturbed_def
  proof (intro conjI allI impI)
    show "length st \<le> length (fst c)"
      using len1 lenc by simp
    fix b assume b: "b < length st" "b < n \<or> unwrap (st ! b) = None"
    have "b \<noteq> a"
      using b a(2) kind by auto
    then show "fst c ! b = st ! b"
      using others old b(1) by simp
  qed
  have line: "store_line wrap unwrap dflt additions side game_ref l st d
              = and_then c (\<lambda>st2 u. (st2, Inr d1))"
    using get by (simp add: store_line_def k_def c_def)
  have pure: "process_line add dflt t l pd
              = bind (add l (touched t l s0)) (\<lambda>s. Inr (AList.update k s pd))"
    by (simp add: process_line_touched s0_def k_def)
  show ?thesis
  proof (cases "add l (touched t l s0)")
    case (Inl e)
    then have "snd c = Inl e"
      using facts by simp
    then have "and_then c (\<lambda>st2 u. (st2, Inr d1)) = (fst c, Inl e)"
      by (simp add: and_then_unfold)
    then show ?thesis
      using und Inl by (simp add: simulates_def line pure t_def [symmetric])
  next
    case (Inr s')
    then have c: "snd c = Inr ()" "unwrap (fst c ! a) = Some s'"
      using facts by simp_all
    have "stats_rel unwrap n (fst c) d1 (AList.update k s' pd1)"
      by (rule stats_rel_write [OF rel1 look lenc others c(2)])
    then have "stats_rel unwrap n (fst c) d1 (AList.update k s' pd)"
      by (simp add: up)
    moreover have "and_then c (\<lambda>st2 u. (st2, Inr d1)) = (fst c, Inr d1)"
      using c(1) by (simp add: and_then_unfold)
    ultimately show ?thesis
      using und Inr by (simp add: simulates_def line pure t_def [symmetric])
  qed
qed

lemma undisturbed_game:
  assumes "undisturbed unwrap n st st1" and "n \<le> length st" and "game_ref < n" and "st ! game_ref = GameObj g"
  shows "n \<le> length st1" and "st1 ! game_ref = GameObj g"
  using assms by (auto simp: undisturbed_def)

lemma store_lines_simulates:
  assumes wu: "\<And>s. unwrap (wrap s) = Some s"
    and add: "\<And>l s. run_statements (additions l) s = add l s"
    and rel: "stats_rel unwrap n st d pd" and n: "n \<le> length st"
    and game: "game_ref < n" "st ! game_ref = GameObj g"
  shows "simulates (undisturbed unwrap n st)
           (process_lines add dflt (get_field (side g) ''Unknown'') ls pd)
           (store_lines wrap unwrap dflt additions side game_ref ls st d)
           (\<lambda>pd' st' d'. stats_rel unwrap n st' d' pd')"
  using rel n game(2)
proof (induction ls arbitrary: st d pd)
  case Nil
  then show ?case
    by (simp add: simulates_def undisturbed_refl)
next
  case (Cons l ls)
  show ?case
    unfolding process_lines.simps store_lines.simps
  proof (rule simulates_bind)
    show "simulates (undisturbed unwrap n st)
            (process_line add dflt (get_field (side g) ''Unknown'') l pd)
            (store_line wrap unwrap dflt additions side game_ref l st d)
            (\<lambda>pd' st' d'. stats_rel unwrap n st' d' pd')"
      by (rule store_line_simulates [OF wu add Cons.prems(1,2) game(1) Cons.prems(3)])
  next
    fix pd1 st1 d1
    assume rel1: "stats_rel unwrap n st1 d1 pd1" and und: "undisturbed unwrap n st st1"
    have n1: "n \<le> length st1" and g1: "st1 ! game_ref = GameObj g"
      using undisturbed_game [OF und Cons.prems(2) game(1) Cons.prems(3)] by simp_all
    have "simulates (undisturbed unwrap n st1)
            (process_lines add dflt (get_field (side g) ''Unknown'') ls pd1)
            (store_lines wrap unwrap dflt additions side game_ref ls st1 d1)
            (\<lambda>pd' st' d'. stats_rel unwrap n st' d' pd')"
      by (rule Cons.IH [OF rel1 n1 g1])
    then show "simulates (undisturbed unwrap n st)
            (process_lines add dflt (get_field (side g) ''Unknown'') ls pd1)
            (store_lines wrap unwrap dflt additions side game_ref ls st1 d1)
            (\<lambda>pd' st' d'. stats_rel unwrap n st' d' pd')"
      by (rule simulates_weaken) (simp_all add: undisturbed_trans [OF und])
  qed
qed

lemma store_side_simulates:
  assumes wu: "\<And>s. unwrap (wrap s) = Some s"
    and add: "\<And>l s. run_statements (additions l) s = add l s"
    and rel: "stats_rel unwrap n st d pd" and n: "n \<le> length st"
    and game: "game_ref < n" "st ! game_ref = GameObj g"
  shows "simulates (undisturbed unwrap n st)
           (process_lines add dflt (get_field (side g) ''Unknown'') (get_field (lines g) []) pd)
           (store_side wrap unwrap dflt additions lines side game_ref st d)
           (\<lambda>pd' st' d'. stats_rel unwrap n st' d' pd')"
proof -
  have "deref game_of st game_ref = Inr g"
    using game n by (simp add: deref_def)
  then have "store_side wrap unwrap dflt additions lines side game_ref st d
             = store_lines wrap unwrap dflt additions side game_ref (get_field (lines g) []) st d"
    by (simp add: store_side_def)
  then show ?thesis
    using store_lines_simulates [OF wu add rel n game] by simp
qed

lemma store_two_sides_simulates:
  assumes wu: "\<And>s. unwrap (wrap s) = Some s"
    and add: "\<And>l s. run_statements (additions l) s = add l s"
    and rel: "stats_rel unwrap n st d pd" and n: "n \<le> length st"
    and game: "game_ref < n" "st ! game_ref = GameObj g"
  shows "simulates (undisturbed unwrap n st)
           (bind (process_lines add dflt (get_field (home_team g) ''Unknown'') (get_field (lines1 g) []) pd)
              (process_lines add dflt (get_field (away_team g) ''Unknown'') (get_field (lines2 g) [])))
           (and_then (store_side wrap unwrap dflt additions lines1 home_team game_ref st d)
              (store_side wrap unwrap dflt additions lines2 away_team game_ref))
           (\<lambda>pd' st' d'. stats_rel unwrap n st' d' pd')"
proof (rule simulates_bind)
  show "simulates (undisturbed unwrap n st)
          (process_lines add dflt (get_field (home_team g) ''Unknown'') (get_field (lines1 g) []) pd)
          (store_side wrap unwrap dflt additions lines1 home_team game_ref st d)
          (\<lambda>pd' st' d'. stats_rel unwrap n st' d' pd')"
    by (rule store_side_simulates [OF wu add rel n game])
next
  fix pd1 st1 d1
  assume rel1: "stats_rel unwrap n st1 d1 pd1" and und: "undisturbed unwrap n st st1"
  have n1: "n \<le> length st1" and g1: "st1 ! game_ref = GameObj g"
    using undisturbed_game [OF und n game] by simp_all
  have "simulates (undisturbed unwrap n st1)
          (process_lines add dflt (get_field (away_team g) ''Unknown'') (get_field (lines2 g) []) pd1)
          (store_side wrap unwrap dflt additions lines2 away_team game_ref st1 d1)
          (\<lambda>pd' st' d'. stats_rel unwrap n st' d' pd')"
    by (rule store_side_simulates [OF wu add rel1 n1 game(1) g1])
  then show "simulates (undisturbed unwrap n st)
          (process_lines add dflt (get_field (away_team g) ''Unknown'') (get_field (lines2 g) []) pd1)
          (store_side wrap unwrap dflt additions lines2 away_team game_ref st1 d1)
          (\<lambda>pd' st' d'. stats_rel unwrap n st' d' pd')"
    by (rule simulates_weaken) (simp_all add: undisturbed_trans [OF und])
qed

lemma store_game_batting_simulates:
  assumes "stats_rel batting_of n st d pd" and "n \<le> length st"
    and "game_ref < n" and "st ! game_ref = GameObj g"
  shows "simulates (undisturbed batting_of n st)
           (process_game_batting_stats g pd) (store_game_batting game_ref st d)
           (\<lambda>pd' st' d'. stats_rel batting_of n st' d' pd')"
  unfolding process_game_batting_stats_def store_game_batting_def
  by (rule store_two_sides_simulates [OF _ run_batting_additions assms]) simp

lemma store_game_pitching_simulates:
  assumes "stats_rel pitching_of n st d pd" and "n \<le> length st"
    and "game_ref < n" and "st ! game_ref = GameObj g"
  shows "simulates (undisturbed pitching_of n st)
           (process_game_pitching_stats g pd) (store_game_pitching game_ref st d)
           (\<lambda>pd' st' d'. stats_rel pitching_of n st' d' pd')"
  unfolding process_game_pitching_stats_def store_game_pitching_def
  by (rule store_two_sides_simulates [OF _ run_pitching_additions assms]) simp

lemma batting_not_pitching: "pitching_of x = Some s \<Longrightarrow> batting_of x = None"
  by (cases x) simp_all

lemma pitching_not_batting: "batting_of x = Some s \<Longrightarrow> pitching_of x = None"
  by (cases x) simp_all

lemma kept_games:
  assumes "list_all2 (\<lambda>a g. a < n \<and> st ! a = GameObj g) refs gs" and "kept n st st1"
  shows "list_all2 (\<lambda>a g. a < n \<and> st1 ! a = GameObj g) refs gs"
  using assms by (induction refs gs rule: list_all2_induct) (auto simp: kept_def)

lemma store_games_simulates:
  assumes games: "list_all2 (\<lambda>a g. a < n \<and> st ! a = GameObj g) refs gs"
    and relb: "stats_rel batting_of n st db pb" and relp: "stats_rel pitching_of n st dp pp"
    and n: "n \<le> length st"
  shows "simulates (kept n st) (process_games gs pb pp) (store_games refs st db dp)
           (\<lambda>acc st' acc'. stats_rel batting_of n st' (fst acc') (fst acc)
                            \<and> stats_rel pitching_of n st' (snd acc') (snd acc))"
  using games relb relp n
proof (induction refs arbitrary: gs st db dp pb pp)
  case Nil
  then show ?case
    by (simp add: simulates_def kept_refl)
next
  case (Cons a refs)
  from Cons.prems(1) obtain g gs' where gs: "gs = g # gs'"
    and a: "a < n" "st ! a = GameObj g"
    and rest: "list_all2 (\<lambda>a g. a < n \<and> st ! a = GameObj g) refs gs'"
    by (auto simp: list_all2_Cons1)
  note relb = Cons.prems(2) and relp = Cons.prems(3) and n = Cons.prems(4)
  show ?case
    unfolding gs process_games.simps store_games.simps
  proof (rule simulates_bind)
    show "simulates (kept n st) (process_game_batting_stats g pb) (store_game_batting a st db)
            (\<lambda>pd' st' d'. stats_rel batting_of n st' d' pd' \<and> undisturbed batting_of n st st')"
      by (rule simulates_weaken [OF store_game_batting_simulates [OF relb n a]])
        (simp_all add: undisturbed_kept n)
  next
    fix pb1 st1 db1
    assume "stats_rel batting_of n st1 db1 pb1 \<and> undisturbed batting_of n st st1"
      and k1: "kept n st st1"
    then have relb1: "stats_rel batting_of n st1 db1 pb1" and und1: "undisturbed batting_of n st st1"
      by simp_all
    have relp1: "stats_rel pitching_of n st1 dp pp"
      by (rule stats_rel_other_kind [OF relp und1 batting_not_pitching])
    have n1: "n \<le> length st1" and a1: "st1 ! a = GameObj g"
      using k1 n a by (simp_all add: kept_def)
    show "simulates (kept n st)
            (bind (process_game_pitching_stats g pp) (process_games gs' pb1))
            (and_then (store_game_pitching a st1 dp) (\<lambda>st ps. store_games refs st db1 ps))
            (\<lambda>acc st' acc'. stats_rel batting_of n st' (fst acc') (fst acc)
                             \<and> stats_rel pitching_of n st' (snd acc') (snd acc))"
    proof (rule simulates_bind)
      show "simulates (kept n st) (process_game_pitching_stats g pp) (store_game_pitching a st1 dp)
              (\<lambda>pd' st' d'. stats_rel pitching_of n st' d' pd' \<and> undisturbed pitching_of n st1 st')"
        by (rule simulates_weaken [OF store_game_pitching_simulates [OF relp1 n1 a(1) a1]])
          (simp_all add: kept_trans [OF k1] undisturbed_kept n1)
    next
      fix pp2 st2 dp2
      assume "stats_rel pitching_of n st2 dp2 pp2 \<and> undisturbed pitching_of n st1 st2"
        and k2: "kept n st st2"
      then have relp2: "stats_rel pitching_of n st2 dp2 pp2"
        and und2: "undisturbed pitching_of n st1 st2"
        by simp_all
      have relb2: "stats_rel batting_of n st2 db1 pb1"
        by (rule stats_rel_other_kind [OF relb1 und2 pitching_not_batting])
      have n2: "n \<le> length st2"
        using k2 n by (simp add: kept_def)
      have games2: "list_all2 (\<lambda>a g. a < n \<and> st2 ! a = GameObj g) refs gs'"
        by (rule kept_games [OF rest k2])
      have "simulates (kept n st2) (process_games gs' pb1 pp2) (store_games refs st2 db1 dp2)
              (\<lambda>acc st' acc'. stats_rel batting_of n st' (fst acc') (fst acc)
                               \<and> stats_rel pitching_of n st' (snd acc') (snd acc))"
        using games2 relb2 relp2 n2 by (rule Cons.IH)
      then show "simulates (kept n st) (process_games gs' pb1 pp2) (store_games refs st2 db1 dp2)
              (\<lambda>acc st' acc'. stats_rel batting_of n st' (fst acc') (fst acc)
                               \<and> stats_rel pitching_of n st' (snd acc') (snd acc))"
        by (rule simulates_weaken) (simp_all add: kept_trans [OF k2])
    qed
  qed
qed

lemma stats_rel_Cons:
  assumes "stats_rel unwrap n st (item # d) pd"
  obtains s pd' where "pd = (fst item, s) # pd'" "unwrap (st ! snd item) = Some s"
    "snd item < length st" "n \<le> snd item" "stats_rel unwrap n st d pd'" "snd item \<notin> snd ` set d"
proof -
  from stats_rel_all [OF assms] obtain y pd' where pd: "pd = y # pd'"
    and h: "fst item = fst y" "n \<le> snd item" "snd item < length st"
      "unwrap (st ! snd item) = Some (snd y)"
    and t: "list_all2 (\<lambda>ra ks. fst ra = fst ks \<and> n \<le> snd ra \<and> snd ra < length st
                           \<and> unwrap (st ! snd ra) = Some (snd ks)) d pd'"
    by (auto simp: list_all2_Cons1)
  have "pd = (fst item, snd y) # pd'"
    using pd h(1) by simp
  moreover have "stats_rel unwrap n st d pd'" "snd item \<notin> snd ` set d"
    using assms t by (simp_all add: stats_rel_def)
  ultimately show ?thesis
    using that h by blast
qed

lemma store_averages_simulates:
  assumes wu: "\<And>s. unwrap (wrap s) = Some s"
    and rel: "stats_rel unwrap n st d pd"
  shows "simulates (undisturbed unwrap n st) (run_items (run_statements statements) pd)
           (store_averages wrap unwrap statements d st) (\<lambda>l st' l'. l' = l)"
  using rel
proof (induction d arbitrary: st pd)
  case Nil
  then have "pd = []"
    using stats_rel_all [of unwrap n st "[]" pd] by simp
  then show ?case
    by (simp add: simulates_def undisturbed_refl)
next
  case (Cons item d)
  from stats_rel_Cons [OF Cons.prems] obtain s pd' where
    pd: "pd = (fst item, s) # pd'" and s: "unwrap (st ! snd item) = Some s"
    and a: "snd item < length st" "n \<le> snd item"
    and rest: "stats_rel unwrap n st d pd'" and fresh: "snd item \<notin> snd ` set d"
    by blast
  define c where
    "c = store_statements wrap unwrap (snd item) (map (\<lambda>statement st. statement) statements) st"
  have facts: "length (fst c) = length st \<and> (\<forall>b. b \<noteq> snd item \<longrightarrow> fst c ! b = st ! b)
       \<and> (case run_statements statements s of
            Inl e \<Rightarrow> snd c = Inl e
          | Inr s' \<Rightarrow> snd c = Inr () \<and> unwrap (fst c ! snd item) = Some s')"
    using store_statements_run [of unwrap wrap "\<lambda>st'. True", OF wu _ lifted_agree _ a(1) s]
    unfolding c_def by simp
  have lenc: "length (fst c) = length st" and others: "\<And>b. b \<noteq> snd item \<Longrightarrow> fst c ! b = st ! b"
    using facts by simp_all
  have und: "undisturbed unwrap n st (fst c)"
    unfolding undisturbed_def
  proof (intro conjI allI impI)
    show "length st \<le> length (fst c)"
      using lenc by simp
    fix b assume "b < length st" "b < n \<or> unwrap (st ! b) = None"
    then have "b \<noteq> snd item"
      using a(2) s by auto
    then show "fst c ! b = st ! b"
      by (rule others)
  qed
  show ?case
  proof (cases "run_statements statements s")
    case (Inl e)
    then have "snd c = Inl e"
      using facts by simp
    then have "store_averages wrap unwrap statements (item # d) st = (fst c, Inl e)"
      by (simp add: c_def [symmetric] and_then_unfold)
    then show ?thesis
      using und Inl by (simp add: simulates_def pd)
  next
    case (Inr s')
    then have c: "snd c = Inr ()" "unwrap (fst c ! snd item) = Some s'"
      using facts by simp_all
    have c_eq: "store_statements wrap unwrap (snd item) (map (\<lambda>statement st. statement) statements) st
                = (fst c, Inr ())"
      using c(1) by (simp add: c_def [symmetric] prod_eq_iff)
    have d: "deref unwrap (fst c) (snd item) = Inr s'"
      using c(2) a(1) lenc by (simp add: deref_def)
    have step: "store_averages wrap unwrap statements (item # d) st
          = and_then (store_averages wrap unwrap statements d (fst c))
              (\<lambda>st stats_list. (st, Inr (s' # stats_list)))"
      by (simp add: c_eq d)
    have pure: "run_items (run_statements statements) pd
          = bind (run_items (run_statements statements) pd') (\<lambda>stats_list. Inr (s' # stats_list))"
      by (simp add: pd Inr)
    have rest1: "stats_rel unwrap n (fst c) d pd'"
    proof (rule stats_rel_transfer [OF rest])
      show "length st \<le> length (fst c)"
        using lenc by simp
      fix b assume "b \<in> snd ` set d"
      then have "b \<noteq> snd item"
        using fresh by blast
      then show "fst c ! b = st ! b"
        by (rule others)
    qed
    have "simulates (undisturbed unwrap n st) (run_items (run_statements statements) pd')
            (store_averages wrap unwrap statements d (fst c)) (\<lambda>l st' l'. l' = l)"
      by (rule simulates_weaken [OF Cons.IH [OF rest1]]) (simp_all add: undisturbed_trans [OF und])
    then show ?thesis
      unfolding step pure by (rule simulates_bind) (simp add: simulates_def)
  qed
qed

lemma bind_Inr_right: "bind r Inr = r"
  by (cases r) simp_all

lemma run_batting_averages:
  "run_statements [set_batting_average, set_on_base_percentage, set_slugging_percentage, set_ops]
   = batting_averages"
  by (rule ext) (simp add: batting_averages_def bind_def split: sum.splits)

lemma run_pitching_averages: "run_statements [set_era, set_whip] = pitching_averages"
  by (rule ext) (simp add: pitching_averages_def bind_def split: sum.splits)

lemma run_items_batting: "run_items batting_averages pd = calculate_batting_averages pd"
  by (induction pd) simp_all

lemma run_items_pitching: "run_items pitching_averages pd = calculate_pitching_averages pd"
  by (induction pd) simp_all

lemma store_aggregate_simulates:
  assumes n: "n \<le> length st" and ref: "games_ref < n" "st ! games_ref = ListObj refs"
    and games: "list_all2 (\<lambda>a g. a < n \<and> st ! a = GameObj g) refs gs"
  shows "simulates (kept n st) (calculate_aggregate_stats gs) (store_aggregate games_ref st)
           (\<lambda>res st' res'. res' = res)"
proof -
  have "deref list_of st games_ref = Inr refs"
    using ref n by (simp add: deref_def)
  then have agg: "store_aggregate games_ref st =
     and_then (store_games refs st [] []) (\<lambda>st acc.
     and_then (store_averages BattingObj batting_of
                 [set_batting_average, set_on_base_percentage, set_slugging_percentage, set_ops]
                 (fst acc) st) (\<lambda>st batting_list.
     and_then (store_averages PitchingObj pitching_of [set_era, set_whip] (snd acc) st)
       (\<lambda>st pitching_list. (st, Inr (batting_list, pitching_list)))))"
    by (simp add: store_aggregate_def)
  show ?thesis
    unfolding agg calculate_aggregate_stats_def
  proof (rule simulates_bind)
    show "simulates (kept n st) (process_games gs [] []) (store_games refs st [] [])
            (\<lambda>acc st' acc'. stats_rel batting_of n st' (fst acc') (fst acc)
                             \<and> stats_rel pitching_of n st' (snd acc') (snd acc))"
      by (rule store_games_simulates [OF games stats_rel_Nil stats_rel_Nil n])
  next
    fix acc st1 acc'
    assume "stats_rel batting_of n st1 (fst acc') (fst acc)
            \<and> stats_rel pitching_of n st1 (snd acc') (snd acc)"
      and k1: "kept n st st1"
    then have relb: "stats_rel batting_of n st1 (fst acc') (fst acc)"
      and relp: "stats_rel pitching_of n st1 (snd acc') (snd acc)"
      by simp_all
    have n1: "n \<le> length st1"
      using k1 n by (simp add: kept_def)
    show "simulates (kept n st)
            (bind (calculate_batting_averages (fst acc)) (\<lambda>batting_list.
               bind (calculate_pitching_averages (snd acc)) (\<lambda>pitching_list.
                 Inr (batting_list, pitching_list))))
            (and_then (store_averages BattingObj batting_of
                 [set_batting_average, set_on_base_percentage, set_slugging_percentage, set_ops]
                 (fst acc') st1) (\<lambda>st batting_list.
               and_then (store_averages PitchingObj pitching_of [set_era, set_whip] (snd acc') st)
                 (\<lambda>st pitching_list. (st, Inr (batting_list, pitching_list)))))
            (\<lambda>res st' res'. res' = res)"
    proof (rule simulates_bind)
      have "simulates (undisturbed batting_of n st1)
              (run_items (run_statements
                 [set_batting_average, set_on_base_percentage, set_slugging_percentage, set_ops]) (fst acc))
              (store_averages BattingObj batting_of
                 [set_batting_average, set_on_base_percentage, set_slugging_percentage, set_ops]
                 (fst acc') st1) (\<lambda>l st' l'. l' = l)"
        by (rule store_averages_simulates [OF _ relb]) simp
      then show "simulates (kept n st) (calculate_batting_averages (fst acc))
              (store_averages BattingObj batting_of
                 [set_batting_average, set_on_base_percentage, set_slugging_percentage, set_ops]
                 (fst acc') st1) (\<lambda>l st' l'. l' = l \<and> undisturbed batting_of n st1 st')"
        unfolding run_batting_averages run_items_batting
        by (rule simulates_weaken) (simp_all add: kept_trans [OF k1] undisturbed_kept n1)
    next
      fix bl st2 bl'
      assume "bl' = bl \<and> undisturbed batting_of n st1 st2" and k2: "kept n st st2"
      then have bl: "bl' = bl" and und2: "undisturbed batting_of n st1 st2"
        by simp_all
      have relp2: "stats_rel pitching_of n st2 (snd acc') (snd acc)"
        by (rule stats_rel_other_kind [OF relp und2 batting_not_pitching])
      have n2: "n \<le> length st2"
        using k2 n by (simp add: kept_def)
      show "simulates (kept n st)
              (bind (calculate_pitching_averages (snd acc)) (\<lambda>pitching_list. Inr (bl, pitching_list)))
              (and_then (store_averages PitchingObj pitching_of [set_era, set_whip] (snd acc') st2)
                 (\<lambda>st pitching_list. (st, Inr (bl', pitching_list))))
              (\<lambda>res st' res'. res' = res)"
      proof (rule simulates_bind)
        have "simulates (undisturbed pitching_of n st2)
                (run_items (run_statements [set_era, set_whip]) (snd acc))
                (store_averages PitchingObj pitching_of [set_era, set_whip] (snd acc') st2)
                (\<lambda>l st' l'. l' = l)"
          by (rule store_averages_simulates [OF _ relp2]) simp
        then show "simulates (kept n st) (calculate_pitching_averages (snd acc))
                (store_averages PitchingObj pitching_of [set_era, set_whip] (snd acc') st2)
                (\<lambda>l st' l'. l' = l)"
          unfolding run_pitching_averages run_items_pitching
          by (rule simulates_weaken) (simp_all add: kept_trans [OF k2] undisturbed_kept n2)
      next
        fix pl st3 pl'
        assume "pl' = pl" and "kept n st st3"
        then show "simulates (kept n st) (Inr (bl, pl)) (st3, Inr (bl', pl')) (\<lambda>res st' res'. res' = res)"
          by (simp add: simulates_def bl)
      qed
    qed
  qed
qed

lemma simulates_result:
  assumes "simulates F p c (\<lambda>res st' res'. res' = res)"
  shows "snd c = p" and "F (fst c)"
  using assms by (cases p; auto simp: simulates_def)+

lemma kept_take: "kept (length st) st st' \<Longrightarrow> take (length st) st' = st"
  by (rule nth_equalityI) (simp_all add: kept_def)

text \<open>
  Claim C9. Let the store \<open>st\<close> hold, at \<open>games_ref\<close>, the list of games, and the games
  \<open>gs\<close> at the addresses of that list. After the call, every object that was in the store
  before it is as it was, whether the call returns or raises: the call writes only to the
  statistics dictionaries it creates. Its outcome is that of \<^verbatim>\<open>calculate_aggregate_stats\<close>
  on \<open>gs\<close>: the same two lists, or the same exception. A second call, on the store the
  first one leaves, again changes no object that was there before the first, and has the
  same outcome as the first. (Results are compared as values; a float is its value.)
\<close>

theorem input_kept_and_calls_repeat:
  assumes "games_ref < length st" and "st ! games_ref = ListObj refs"
    and "list_all2 (\<lambda>a g. a < length st \<and> st ! a = GameObj g) refs gs"
  shows "take (length st) (fst (store_aggregate games_ref st)) = st
       \<and> snd (store_aggregate games_ref st) = calculate_aggregate_stats gs
       \<and> take (length st) (fst (store_aggregate games_ref (fst (store_aggregate games_ref st)))) = st
       \<and> snd (store_aggregate games_ref (fst (store_aggregate games_ref st)))
           = snd (store_aggregate games_ref st)"
proof -
  define st1 where "st1 = fst (store_aggregate games_ref st)"
  define st2 where "st2 = fst (store_aggregate games_ref st1)"
  have first: "simulates (kept (length st) st) (calculate_aggregate_stats gs)
                 (store_aggregate games_ref st) (\<lambda>res st' res'. res' = res)"
    by (rule store_aggregate_simulates [OF _ assms]) simp
  have k1: "kept (length st) st st1" and r1: "snd (store_aggregate games_ref st) = calculate_aggregate_stats gs"
    using simulates_result [OF first] by (simp_all add: st1_def)
  have n1: "length st \<le> length st1" and list1: "st1 ! games_ref = ListObj refs"
    using k1 assms(1,2) by (simp_all add: kept_def)
  have games1: "list_all2 (\<lambda>a g. a < length st \<and> st1 ! a = GameObj g) refs gs"
    by (rule kept_games [OF assms(3) k1])
  have second: "simulates (kept (length st) st1) (calculate_aggregate_stats gs)
                  (store_aggregate games_ref st1) (\<lambda>res st' res'. res' = res)"
    by (rule store_aggregate_simulates [OF n1 assms(1) list1 games1])
  have k2: "kept (length st) st1 st2" and r2: "snd (store_aggregate games_ref st1) = calculate_aggregate_stats gs"
    using simulates_result [OF second] by (simp_all add: st2_def)
  have "take (length st) st1 = st"
    by (rule kept_take [OF k1])
  moreover have "take (length st) st2 = st"
    by (rule kept_take [OF kept_trans [OF k1 k2]])
  ultimately show ?thesis
    using r1 r2 by (simp add: st1_def st2_def)
qed

theorem input_kept_and_calls_repeat_witness:
  "take 3 (fst (store_aggregate 0 two_game_store)) = two_game_store
   \<and> length (fst (store_aggregate 0 two_game_store)) = 5
   \<and> snd (store_aggregate 0 two_game_store) = calculate_aggregate_stats [walk_only_game, one_for_three_game]
   \<and> snd (store_aggregate 0 two_game_store) =
       Inr ([\<lparr>player_name = ''P'', team = ''Reds'', games = 2, at_bats = 3, hits = 1,
              runs = 0, rbis = 0, doubles = 0, triples = 0, home_runs = 0, walks = 1, strikeouts = 0,
              batting_average = Fin 5998794703657501 (- 54), on_base_percentage = Fin 1 (- 1),
              slugging_percentage = Fin 5998794703657501 (- 54),
              ops = Fin 3751498489599623 (- 52)\<rparr>],
            [\<lparr>player_name = ''Q'', team = ''Cubs'', games = 1, wins = 0, losses = 0, saves = 0,
              innings_pitched = fzero, hits_allowed = 2, runs_allowed = 0, earned_runs = 0,
              walks_allowed = 0, pitching_strikeouts = 0, home_runs_allowed = 0, era = fzero,
              whip = fzero\<rparr>])
   \<and> take 3 (fst (store_aggregate 0 (fst (store_aggregate 0 two_game_store)))) = two_game_store
   \<and> length (fst (store_aggregate 0 (fst (store_aggregate 0 two_game_store)))) = 7
   \<and> snd (store_aggregate 0 (fst (store_aggregate 0 two_game_store))) = snd (store_aggregate 0 two_game_store)
   \<and> take 3 (fst (store_aggregate 0 corrupt_store)) = corrupt_store
   \<and> length (fst (store_aggregate 0 corrupt_store)) = 5
   \<and> snd (store_aggregate 0 corrupt_store) = Inl ValueError
   \<and> snd (store_aggregate 0 (fst (store_aggregate 0 corrupt_store))) = Inl ValueError"
proof -
  have h: "0 < length two_game_store" "two_game_store ! 0 = ListObj [1, 2]"
    "list_all2 (\<lambda>a g. a < length two_game_store \<and> two_game_store ! a = GameObj g) [1, 2]
       [walk_only_game, one_for_three_game]"
    by (simp_all add: two_game_store_def)
  have h': "0 < length corrupt_store" "corrupt_store ! 0 = ListObj [1, 2]"
    "list_all2 (\<lambda>a g. a < length corrupt_store \<and> corrupt_store ! a = GameObj g) [1, 2]
       [one_for_three_game, corrupt_game]"
    by (simp_all add: corrupt_store_def)
  have len: "length two_game_store = 3" "length corrupt_store = 3"
    by (simp_all add: two_game_store_def corrupt_store_def)
  note t = input_kept_and_calls_repeat [OF h, unfolded len]
  note t' = input_kept_and_calls_repeat [OF h', unfolded len]
  have sizes: "length (fst (store_aggregate 0 two_game_store)) = 5"
    "length (fst (store_aggregate 0 (fst (store_aggregate 0 two_game_store)))) = 7"
    "length (fst (store_aggregate 0 corrupt_store)) = 5"
    by code_simp+
  have out: "snd (store_aggregate 0 two_game_store) =
       Inr ([\<lparr>player_name = ''P'', team = ''Reds'', games = 2, at_bats = 3, hits = 1,
              runs = 0, rbis = 0, doubles = 0, triples = 0, home_runs = 0, walks = 1, strikeouts = 0,
              batting_average = Fin 5998794703657501 (- 54), on_base_percentage = Fin 1 (- 1),
              slugging_percentage = Fin 5998794703657501 (- 54),
              ops = Fin 3751498489599623 (- 52)\<rparr>],
            [\<lparr>player_name = ''Q'', team = ''Cubs'', games = 1, wins = 0, losses = 0, saves = 0,
              innings_pitched = fzero, hits_allowed = 2, runs_allowed = 0, earned_runs = 0,
              walks_allowed = 0, pitching_strikeouts = 0, home_runs_allowed = 0, era = fzero,
              whip = fzero\<rparr>])"
    by code_simp
  have raised: "snd (store_aggregate 0 corrupt_store) = Inl ValueError"
    by code_simp
  show ?thesis
    using t t' sizes out raised by simp
qed

end
